theory Spec2Isabelle
  imports Complex_Main "HOL-Library.Multiset"
begin

section \<open>The \<open>covidcast\<close> table\<close>

text \<open>
  \<open>database.py\<close> is a class whose methods each send one SQL statement to the table
  \<open>covidcast\<close>. The table is modelled as the list of its rows, every statement as a
  function on that list: a \<open>SELECT\<close> returns the list of result tuples, an \<open>UPDATE\<close> or
  \<open>INSERT\<close> returns the new table. \<open>UNIX_TIMESTAMP(NOW())\<close> is the reading of the
  database clock in whole seconds when the statement runs; it is the parameter \<open>now\<close>.

  The columns follow the order of the \<open>VALUES\<close> list of \<open>insert_or_update\<close>. The first
  column, the surrogate \<open>id\<close>, is given by the engine's auto-increment counter (the
  statement passes 0) and is read by no statement of the class; the rows below do not
  carry it. The column \<open>value\<close> is named \<open>val\<close> here. A nullable column is an option,
  \<open>NULL\<close> being \<open>None\<close>.
\<close>

record row =
  source :: string
  signal :: string
  time_type :: string
  geo_type :: string
  time_value :: int
  geo_value :: string
  timestamp1 :: int
  val :: real
  stderr :: "real option"
  sample_size :: "real option"
  timestamp2 :: int
  direction :: "int option"

type_synonym table = "row list"

type_synonym key = "string \<times> string \<times> string \<times> string \<times> int \<times> string"

definition row_key :: "row \<Rightarrow> key" where
  "row_key r = (source r, signal r, time_type r, geo_type r, time_value r, geo_value r)"

text \<open>
  Modelled from the spec: the table's declaration (\<open>src/ddl/covidcast.sql\<close>) is not among
  the sources. The spec says of it: "one wide table keyed by the six-column composite
  key", "Key is globally unique; re-insertion with the same key is an update, not a
  duplicate".
\<close>

definition unique_keys :: "table \<Rightarrow> bool" where
  "unique_keys tbl = distinct (map row_key tbl)"

text \<open>A series: the rows that agree on every key column but \<open>time_value\<close>.\<close>

definition same_series :: "row \<Rightarrow> row \<Rightarrow> bool" where
  "same_series c d =
     (source c = source d \<and> signal c = signal d \<and> time_type c = time_type d \<and>
      geo_type c = geo_type d \<and> geo_value c = geo_value d)"

definition series_key :: "row \<Rightarrow> string \<times> string \<times> string \<times> string \<times> string" where
  "series_key r = (source r, signal r, time_type r, geo_type r, geo_value r)"

subsection \<open>Dates\<close>

text \<open>
  \<open>time_value\<close> of a daily row is the integer \<open>YYYYMMDD\<close>, which \<open>DATEDIFF\<close> reads as a
  date of the Gregorian calendar; the result is the number of days from the second
  date to the first, and \<open>NULL\<close> when an argument is no date. Only the eight-digit form
  is read as a date here.
\<close>

definition leap_year :: "int \<Rightarrow> bool" where
  "leap_year y = (y mod 4 = 0 \<and> (y mod 100 \<noteq> 0 \<or> y mod 400 = 0))"

definition days_in_month :: "int \<Rightarrow> int \<Rightarrow> int" where
  "days_in_month y m =
     (if m = 2 then (if leap_year y then 29 else 28)
      else if m = 4 \<or> m = 6 \<or> m = 9 \<or> m = 11 then 30 else 31)"

definition is_date :: "int \<Rightarrow> bool" where
  "is_date n =
     (10000101 \<le> n \<and> n \<le> 99991231 \<and>
      1 \<le> n div 100 mod 100 \<and> n div 100 mod 100 \<le> 12 \<and>
      1 \<le> n mod 100 \<and> n mod 100 \<le> days_in_month (n div 10000) (n div 100 mod 100))"

text \<open>The day number of a date, counted with the year starting in March.\<close>

definition day_number :: "int \<Rightarrow> int" where
  "day_number n =
     (let y = n div 10000; m = n div 100 mod 100; d = n mod 100;
          y' = (if m \<le> 2 then y - 1 else y);
          m' = (if m \<le> 2 then m + 9 else m - 3)
      in 365 * y' + y' div 4 - y' div 100 + y' div 400 + (153 * m' + 2) div 5 + d)"

definition DATEDIFF :: "int \<Rightarrow> int \<Rightarrow> int option" where
  "DATEDIFF a b =
     (if is_date a \<and> is_date b then Some (day_number a - day_number b) else None)"

text \<open>\<open>x BETWEEN lo AND hi\<close> in a \<open>WHERE\<close> clause: a \<open>NULL\<close> operand does not select the row.\<close>

definition between :: "int option \<Rightarrow> int \<Rightarrow> int \<Rightarrow> bool" where
  "between x lo hi = (case x of None \<Rightarrow> False | Some v \<Rightarrow> lo \<le> v \<and> v \<le> hi)"

subsection \<open>Writes\<close>

text \<open>
  \<open>INSERT ... ON DUPLICATE KEY UPDATE\<close>: a row whose key is in the table is updated in
  the four listed columns, otherwise the new row is added, with \<open>timestamp2 = 0\<close> and
  \<open>direction = NULL\<close>.
\<close>

definition insert_or_update ::
  "int \<Rightarrow> string \<Rightarrow> string \<Rightarrow> string \<Rightarrow> string \<Rightarrow> int \<Rightarrow> string \<Rightarrow>
   real \<Rightarrow> real option \<Rightarrow> real option \<Rightarrow> table \<Rightarrow> table" where
  "insert_or_update now source' signal' time_type' geo_type' time_value' geo_value'
       value' stderr' sample_size' tbl =
     (let k = (source', signal', time_type', geo_type', time_value', geo_value') in
      if k \<in> set (map row_key tbl)
      then map (\<lambda>r. if row_key r = k
                    then r\<lparr>timestamp1 := now, val := value', stderr := stderr',
                           sample_size := sample_size'\<rparr>
                    else r) tbl
      else tbl @ [\<lparr>source = source', signal = signal', time_type = time_type',
                   geo_type = geo_type', time_value = time_value', geo_value = geo_value',
                   timestamp1 = now, val = value', stderr = stderr',
                   sample_size = sample_size', timestamp2 = 0, direction = None\<rparr>])"

definition update_direction ::
  "int \<Rightarrow> string \<Rightarrow> string \<Rightarrow> string \<Rightarrow> string \<Rightarrow> int \<Rightarrow> string \<Rightarrow>
   int option \<Rightarrow> table \<Rightarrow> table" where
  "update_direction now source' signal' time_type' geo_type' time_value' geo_value'
       direction' tbl =
     map (\<lambda>r. if source r = source' \<and> signal r = signal' \<and> time_type r = time_type' \<and>
                 geo_type r = geo_type' \<and> time_value r = time_value' \<and>
                 geo_value r = geo_value'
              then r\<lparr>timestamp2 := now, direction := direction'\<rparr>
              else r) tbl"

definition update_timeseries_timestamp2 ::
  "int \<Rightarrow> string \<Rightarrow> string \<Rightarrow> string \<Rightarrow> string \<Rightarrow> string \<Rightarrow> table \<Rightarrow> table" where
  "update_timeseries_timestamp2 now source' signal' time_type' geo_type' geo_value' tbl =
     map (\<lambda>r. if source r = source' \<and> signal r = signal' \<and> time_type r = time_type' \<and>
                 geo_type r = geo_type' \<and> geo_value r = geo_value'
              then r\<lparr>timestamp2 := now\<rparr>
              else r) tbl"

text \<open>A point read: the row stored under a key, if there is one.\<close>

definition lookup :: "table \<Rightarrow> key \<Rightarrow> row option" where
  "lookup tbl k = find (\<lambda>r. row_key r = k) tbl"

subsection \<open>Reads\<close>

text \<open>
  The pieces of a \<open>SELECT\<close>: \<open>GROUP BY\<close> collects the rows of each distinct value of the
  grouping columns; \<open>MAX\<close> and \<open>MIN\<close> of no rows are \<open>NULL\<close>.
\<close>

definition group_by :: "('a \<Rightarrow> 'k) \<Rightarrow> 'a list \<Rightarrow> ('k \<times> 'a list) list" where
  "group_by f xs = map (\<lambda>k. (k, filter (\<lambda>x. f x = k) xs)) (remdups (map f xs))"

fun sql_max :: "int list \<Rightarrow> int option" where
  "sql_max [] = None"
| "sql_max (x # xs) = Some (fold max xs x)"

fun sql_min :: "int list \<Rightarrow> int option" where
  "sql_min [] = None"
| "sql_min (x # xs) = Some (fold min xs x)"

text \<open>
  \<open>ORDER BY rand()\<close>: the engine draws one number for every row and sorts by it. The
  draws are the parameter \<open>rnd\<close>, \<open>rnd i\<close> being the number drawn for the \<open>i\<close>-th row.
\<close>

definition order_by_rand :: "(nat \<Rightarrow> real) \<Rightarrow> 'a list \<Rightarrow> 'a list" where
  "order_by_rand rnd xs = map snd (sort_key fst (zip (map rnd [0..<length xs]) xs))"

text \<open>
  \<open>get_rows_with_stale_direction\<close>. The join pairs every row \<open>c\<close> with the rows \<open>d\<close> of its
  series; \<open>WHERE\<close> keeps the pairs with a daily \<open>c\<close> and \<open>d\<close> at most 6 days before \<open>c\<close>; the
  pairs are grouped by the key of \<open>c\<close>. A result tuple holds the six key columns of
  \<open>c\<close>, \<open>c.timestamp2\<close>, \<open>max_timestamp1\<close> and \<open>support\<close>; \<open>c.timestamp2\<close>, which is not
  aggregated, is read from the first pair of the group.
\<close>

type_synonym stale_result = "key \<times> int \<times> int \<times> nat"

definition stale_join :: "table \<Rightarrow> (row \<times> row) list" where
  "stale_join tbl =
     filter (\<lambda>(c, d). same_series c d \<and> time_type c = ''day'' \<and>
                       between (DATEDIFF (time_value c) (time_value d)) 0 6)
       (List.product tbl tbl)"

definition stale_select :: "key \<times> (row \<times> row) list \<Rightarrow> stale_result option" where
  "stale_select kg =
     (case kg of (k, g) \<Rightarrow>
        (case g of
           [] \<Rightarrow> None
         | (c, d) # _ \<Rightarrow>
             (case sql_max (map (\<lambda>(c, d). timestamp1 d) g) of
                None \<Rightarrow> None
              | Some max_timestamp1 \<Rightarrow>
                  if max_timestamp1 > timestamp2 c
                  then Some (k, timestamp2 c, max_timestamp1, length g)
                  else None)))"

text \<open>The statement up to \<open>HAVING\<close>, before \<open>ORDER BY\<close> and \<open>LIMIT\<close>.\<close>

definition stale_candidates :: "table \<Rightarrow> stale_result list" where
  "stale_candidates tbl =
     List.map_filter stale_select (group_by (\<lambda>(c, d). row_key c) (stale_join tbl))"

definition get_rows_with_stale_direction :: "(nat \<Rightarrow> real) \<Rightarrow> table \<Rightarrow> stale_result list" where
  "get_rows_with_stale_direction rnd tbl =
     take 10000 (order_by_rand rnd (stale_candidates tbl))"

text \<open>
  \<open>get_rows_to_compute_direction\<close>. A result tuple is \<open>(time_offset, value)\<close>;
  \<open>time_offset\<close> is the \<open>DATEDIFF\<close>, \<open>NULL\<close> included.
\<close>

definition get_rows_to_compute_direction ::
  "string \<Rightarrow> string \<Rightarrow> string \<Rightarrow> int \<Rightarrow> string \<Rightarrow> table \<Rightarrow> (int option \<times> real) list" where
  "get_rows_to_compute_direction source' signal' geo_type' time_value' geo_value' tbl =
     map (\<lambda>r. (DATEDIFF (time_value r) time_value', val r))
       (sort_key time_value
          (filter (\<lambda>r. source r = source' \<and> signal r = signal' \<and> time_type r = ''day'' \<and>
                       geo_type r = geo_type' \<and> geo_value r = geo_value' \<and>
                       between (DATEDIFF (time_value r) time_value') (- 6) 0) tbl))"

text \<open>
  \<open>get_keys_with_potentially_stale_direction\<close>. A result tuple is \<open>(source, signal,
  geo_type, geo_value, max_timestamp1, min_timestamp2, min_day, max_day,
  series_length)\<close>.
\<close>

type_synonym series_result =
  "string \<times> string \<times> string \<times> string \<times> int \<times> int \<times> int \<times> int \<times> nat"

definition series_select ::
  "(string \<times> string \<times> string \<times> string \<times> string) \<times> row list \<Rightarrow> series_result option" where
  "series_select kg =
     (case kg of ((source', signal', time_type', geo_type', geo_value'), g) \<Rightarrow>
        (case (sql_max (map timestamp1 g), sql_min (map timestamp2 g),
               sql_min (map time_value g), sql_max (map time_value g)) of
           (Some max_timestamp1, Some min_timestamp2, Some min_day, Some max_day) \<Rightarrow>
             if max_timestamp1 > min_timestamp2
             then Some (source', signal', geo_type', geo_value', max_timestamp1,
                        min_timestamp2, min_day, max_day, length g)
             else None
         | _ \<Rightarrow> None))"

definition get_keys_with_potentially_stale_direction :: "table \<Rightarrow> series_result list" where
  "get_keys_with_potentially_stale_direction tbl =
     List.map_filter series_select
       (group_by series_key (filter (\<lambda>r. time_type r = ''day'') tbl))"

text \<open>
  The staleness of a row in the words of the specification: among the rows \<open>d\<close> of the
  series of \<open>c\<close> with \<open>0 \<le> c.time_value - d.time_value \<le> 6\<close> days there is one, and the
  largest \<open>timestamp1\<close> among them is greater than \<open>c.timestamp2\<close>.
\<close>

definition window_rows :: "table \<Rightarrow> row \<Rightarrow> row list" where
  "window_rows tbl c =
     filter (\<lambda>d. same_series c d \<and> between (DATEDIFF (time_value c) (time_value d)) 0 6) tbl"

definition stale_by_window :: "table \<Rightarrow> row \<Rightarrow> bool" where
  "stale_by_window tbl c =
     (window_rows tbl c \<noteq> [] \<and>
      Max (set (map timestamp1 (window_rows tbl c))) > timestamp2 c)"

text \<open>A row appears in a result when a tuple of the result carries its key.\<close>

definition appears :: "row \<Rightarrow> stale_result list \<Rightarrow> bool" where
  "appears c res = (row_key c \<in> set (map fst res))"

text \<open>
  The tuple the statement reports for a stale row \<open>c\<close>, the stale daily rows of a table,
  and the \<open>support\<close> column of a result tuple.
\<close>

definition stale_tuple :: "table \<Rightarrow> row \<Rightarrow> stale_result" where
  "stale_tuple tbl c =
     (row_key c, timestamp2 c, Max (set (map timestamp1 (window_rows tbl c))),
      length (window_rows tbl c))"

definition stale_rows :: "table \<Rightarrow> row list" where
  "stale_rows tbl = filter (\<lambda>c. time_type c = ''day'' \<and> stale_by_window tbl c) tbl"

definition support :: "stale_result \<Rightarrow> nat" where
  "support r = snd (snd (snd r))"

text \<open>The rows of a daily series, and the series a result tuple names.\<close>

definition series_rows :: "table \<Rightarrow> string \<Rightarrow> string \<Rightarrow> string \<Rightarrow> string \<Rightarrow> row list" where
  "series_rows tbl s sg gt gv = filter (\<lambda>r. series_key r = (s, sg, ''day'', gt, gv)) tbl"

definition series_of :: "series_result \<Rightarrow> string \<times> string \<times> string \<times> string" where
  "series_of t = (case t of (s, sg, gt, gv, _) \<Rightarrow> (s, sg, gt, gv))"

subsection \<open>The driver\<close>

text \<open>
  \<open>connect\<close> and \<open>disconnect\<close> of \<open>database.py\<close>. A connection holds the table as it was
  last committed and the table as the open transaction sees it; \<open>commit()\<close> makes the
  second the first, and \<open>close()\<close> without it abandons the transaction.
\<close>

record connection =
  cursor_open :: bool
  connection_open :: bool
  committed :: table
  pending :: table

definition connect :: "table \<Rightarrow> connection" where
  "connect db = \<lparr>cursor_open = True, connection_open = True, committed = db, pending = db\<rparr>"

definition disconnect :: "bool \<Rightarrow> connection \<Rightarrow> connection" where
  "disconnect commit c =
     (let c1 = c\<lparr>cursor_open := False\<rparr>;
          c2 = (if commit then c1\<lparr>committed := pending c1\<rparr> else c1)
      in c2\<lparr>connection_open := False, pending := committed c2\<rparr>)"

text \<open>
  Modelled from the spec: \<open>main\<close> of \<open>csv_to_database.py\<close> is not among the sources (its
  tests are). The spec: "on any exception from the ingest step, the persisted
  transaction is rolled back (not committed); on clean completion in non-test mode, it
  is committed; in test/dry-run mode it is always rolled back regardless of outcome";
  the tests: \<open>main\<close> connects, calls the ingest step, and calls \<open>disconnect\<close> also when the
  step raises, the exception then leaving \<open>main\<close>. The ingest step is a parameter, as in
  the tests; it returns the exception it raised, if any, and the table as its writes left
  it.
\<close>

definition main ::
  "bool \<Rightarrow> (table \<Rightarrow> 'e option \<times> table) \<Rightarrow> table \<Rightarrow> 'e option \<times> connection" where
  "main test scan_upload_archive_impl db =
     (let c = connect db;
          (raised, tbl) = scan_upload_archive_impl (pending c);
          c' = c\<lparr>pending := tbl\<rparr>
      in case raised of
           Some e \<Rightarrow> (Some e, disconnect False c')
         | None \<Rightarrow> (None, disconnect (\<not> test) c'))"

subsection \<open>The ingest step\<close>

text \<open>
  Modelled from the spec: \<open>scan_upload_archive\<close> of \<open>csv_to_database.py\<close> is not among the
  sources (its test is). The spec: the step "consumes a sequence of already-validated
  observation batches keyed by file-derived (source, signal, time_type, geo_type,
  time_value); for each valid row within a batch, calls upsert; accumulates per-file
  success/failure and reports back to the archiving collaborator which directory
  (successful vs failed, bucketed by source or unknown if the source could not be
  determined from the filename) each file belongs to"; a batch is successful "iff every
  row in it parsed without validation error", and "rows already upserted before the
  failing row are not rolled back"; "storage-layer failures abort the current
  batch/operation and propagate to the top-level driver". The CSV collaborator gives,
  for every path, the tuple of the file name or nothing, and the rows of the file, a
  row that failed validation being nothing. The archiver receives (source directory,
  destination directory, file name, success flag), the destination being
  \<open><data_dir>/archive/{successful|failed}/<source or unknown>\<close>.

  The collaborators are parameters: \<open>files\<close> is what \<open>find_csv_files\<close> returned, \<open>load_csv\<close>
  the rows of a path, \<open>upsert\<close> the database's \<open>insert_or_update\<close>, which returns the new
  database or the exception it raised. The result is the exception that ended the step,
  if any, the database, and the calls of the archiver in order.
\<close>

type_synonym details = "string \<times> string \<times> string \<times> string \<times> int"

record row_values =
  rv_geo_value :: string
  rv_value :: real
  rv_stderr :: "real option"
  rv_sample_size :: "real option"

type_synonym upsert_call =
  "string \<times> string \<times> string \<times> string \<times> int \<times> string \<times> real \<times> real option \<times> real option"

type_synonym archive_call = "string \<times> string \<times> string \<times> bool"

text \<open>\<open>os.path.split\<close> and \<open>os.path.join\<close> of two components, for POSIX paths.\<close>

definition path_split :: "string \<Rightarrow> string \<times> string" where
  "path_split p =
     (let tail = rev (takeWhile (\<lambda>c. c \<noteq> CHR ''/'') (rev p));
          head = take (length p - length tail) p
      in (if head \<noteq> [] \<and> filter (\<lambda>c. c \<noteq> CHR ''/'') head \<noteq> []
          then rev (dropWhile (\<lambda>c. c = CHR ''/'') (rev head)) else head,
          tail))"

definition path_join :: "string \<Rightarrow> string \<Rightarrow> string" where
  "path_join a b =
     (if b \<noteq> [] \<and> hd b = CHR ''/'' then b
      else if a = [] \<or> last a = CHR ''/'' then a @ b
      else a @ ''/'' @ b)"

fun upload_rows ::
  "(upsert_call \<Rightarrow> 'db \<Rightarrow> 'e + 'db) \<Rightarrow> details \<Rightarrow> row_values option list \<Rightarrow> bool \<Rightarrow> 'db \<Rightarrow>
   'e option \<times> bool \<times> 'db" where
  "upload_rows upsert det [] all_rows_valid db = (None, all_rows_valid, db)"
| "upload_rows upsert det (None # rows) all_rows_valid db =
     upload_rows upsert det rows False db"
| "upload_rows upsert det (Some rv # rows) all_rows_valid db =
     (case det of (source', signal', time_type', geo_type', time_value') \<Rightarrow>
        (case upsert (source', signal', time_type', geo_type', time_value', rv_geo_value rv,
                      rv_value rv, rv_stderr rv, rv_sample_size rv) db of
           Inl e \<Rightarrow> (Some e, all_rows_valid, db)
         | Inr db' \<Rightarrow> upload_rows upsert det rows all_rows_valid db'))"

fun scan_files ::
  "string \<Rightarrow> (string \<Rightarrow> string \<Rightarrow> row_values option list) \<Rightarrow>
   (upsert_call \<Rightarrow> 'db \<Rightarrow> 'e + 'db) \<Rightarrow> (string \<times> details option) list \<Rightarrow>
   'db \<Rightarrow> archive_call list \<Rightarrow> 'e option \<times> 'db \<times> archive_call list" where
  "scan_files data_dir load_csv upsert [] db archived = (None, db, archived)"
| "scan_files data_dir load_csv upsert ((path, None) # files) db archived =
     (case path_split path of (path_src, filename) \<Rightarrow>
        scan_files data_dir load_csv upsert files db
          (archived @ [(path_src,
             path_join (path_join (path_join data_dir ''archive'') ''failed'') ''unknown'',
             filename, False)]))"
| "scan_files data_dir load_csv upsert ((path, Some det) # files) db archived =
     (case path_split path of (path_src, filename) \<Rightarrow>
      case det of (source', signal', time_type', geo_type', time_value') \<Rightarrow>
        (case upload_rows upsert det (load_csv path geo_type') True db of
           (Some e, all_rows_valid, db') \<Rightarrow> (Some e, db', archived)
         | (None, all_rows_valid, db') \<Rightarrow>
             scan_files data_dir load_csv upsert files db'
               (archived @
                [if all_rows_valid
                 then (path_src,
                       path_join (path_join (path_join data_dir ''archive'') ''successful'')
                         source', filename, True)
                 else (path_src,
                       path_join (path_join (path_join data_dir ''archive'') ''failed'')
                         source', filename, False)])))"

definition scan_upload_archive ::
  "string \<Rightarrow> (string \<times> details option) list \<Rightarrow> (string \<Rightarrow> string \<Rightarrow> row_values option list) \<Rightarrow>
   (upsert_call \<Rightarrow> 'db \<Rightarrow> 'e + 'db) \<Rightarrow> 'db \<Rightarrow> 'e option \<times> 'db \<times> archive_call list" where
  "scan_upload_archive data_dir files load_csv upsert db =
     scan_files data_dir load_csv upsert files db []"

text \<open>
  What the step does with one file, stated apart from the loop: the calls of
  \<open>insert_or_update\<close> for the valid rows of a parsed file, none for a file whose name was
  not parsed, and the one call of the archiver.
\<close>

definition call_of :: "details \<Rightarrow> row_values \<Rightarrow> upsert_call" where
  "call_of det rv =
     (case det of (source', signal', time_type', geo_type', time_value') \<Rightarrow>
        (source', signal', time_type', geo_type', time_value', rv_geo_value rv,
         rv_value rv, rv_stderr rv, rv_sample_size rv))"

definition valid_rows :: "row_values option list \<Rightarrow> row_values list" where
  "valid_rows rows = List.map_filter (\<lambda>r. r) rows"

definition file_rows ::
  "(string \<Rightarrow> string \<Rightarrow> row_values option list) \<Rightarrow> string \<Rightarrow> details \<Rightarrow> row_values option list" where
  "file_rows load_csv path det =
     (case det of (source', signal', time_type', geo_type', time_value') \<Rightarrow>
        load_csv path geo_type')"

definition file_calls ::
  "(string \<Rightarrow> string \<Rightarrow> row_values option list) \<Rightarrow> string \<times> details option \<Rightarrow>
   upsert_call list" where
  "file_calls load_csv f =
     (case f of
        (path, None) \<Rightarrow> []
      | (path, Some det) \<Rightarrow> map (call_of det) (valid_rows (file_rows load_csv path det)))"

definition archive_dir :: "string \<Rightarrow> string \<Rightarrow> string \<Rightarrow> string" where
  "archive_dir data_dir outcome bucket =
     path_join (path_join (path_join data_dir ''archive'') outcome) bucket"

definition file_archive ::
  "string \<Rightarrow> (string \<Rightarrow> string \<Rightarrow> row_values option list) \<Rightarrow> string \<times> details option \<Rightarrow>
   archive_call" where
  "file_archive data_dir load_csv f =
     (case f of
        (path, None) \<Rightarrow>
          (fst (path_split path), archive_dir data_dir ''failed'' ''unknown'',
           snd (path_split path), False)
      | (path, Some det) \<Rightarrow>
          if None \<notin> set (file_rows load_csv path det)
          then (fst (path_split path), archive_dir data_dir ''successful'' (fst det),
                snd (path_split path), True)
          else (fst (path_split path), archive_dir data_dir ''failed'' (fst det),
                snd (path_split path), False))"

subsection \<open>Example rows\<close>

text \<open>Rows of one source and signal, used where a statement is run on a concrete table.\<close>

definition day_row :: "string \<Rightarrow> int \<Rightarrow> int \<Rightarrow> int \<Rightarrow> row" where
  "day_row gv tv ts1 ts2 =
     \<lparr>source = ''src'', signal = ''sig'', time_type = ''day'', geo_type = ''county'',
      time_value = tv, geo_value = gv, timestamp1 = ts1, val = 1, stderr = None,
      sample_size = None, timestamp2 = ts2, direction = None\<rparr>"

definition fresh_row :: row where
  "fresh_row = (day_row ''01001'' 20200419 100 150)\<lparr>direction := Some 1\<rparr>"

definition stale_row :: row where
  "stale_row = day_row ''01001'' 20200418 120 110"

definition other_row :: row where
  "other_row = day_row ''01003'' 20200419 130 90"

definition old_row :: row where
  "old_row = day_row ''01001'' 20200410 80 70"

text \<open>
  A table of \<open>n\<close> daily rows, each the only row of its series (the \<open>geo_value\<close> of the
  \<open>i\<close>-th row is \<open>i\<close> zeros), each with \<open>timestamp1 > timestamp2\<close>.
\<close>

definition lone_row :: "nat \<Rightarrow> row" where
  "lone_row i = day_row (replicate i (CHR ''0'')) 20200419 1 0"

definition lone_table :: "nat \<Rightarrow> table" where
  "lone_table n = map lone_row [0..<n]"

text \<open>Two ingest steps, one that returns and one that raises after its write.\<close>

definition example_ingest :: "table \<Rightarrow> string option \<times> table" where
  "example_ingest tbl =
     (None, insert_or_update 200 ''src'' ''sig'' ''day'' ''county'' 20200420 ''01001'' 2 None None tbl)"

definition failing_ingest :: "table \<Rightarrow> string option \<times> table" where
  "failing_ingest tbl =
     (Some ''testing'',
      insert_or_update 200 ''src'' ''sig'' ''day'' ''county'' 20200420 ''01001'' 2 None None tbl)"

text \<open>
  The scenario of \<open>test_scan_upload_archive\<close>: three files, the rows of the first all
  valid, the second row of the second invalid, the name of the third not parsed; the
  database records the calls of \<open>insert_or_update\<close>, as the mock of the test does.
\<close>

definition make_row :: "string \<Rightarrow> real \<Rightarrow> row_values" where
  "make_row g v = \<lparr>rv_geo_value = g, rv_value = v, rv_stderr = Some v, rv_sample_size = Some v\<rparr>"

definition test_files :: "(string \<times> details option) list" where
  "test_files =
     [(''path/a.csv'', Some (''src_a'', ''sig_a'', ''day'', ''hrr'', 20200419)),
      (''path/b.csv'', Some (''src_b'', ''sig_b'', ''week'', ''msa'', 202016)),
      (''path/c.csv'', None)]"

definition test_load_csv :: "string \<Rightarrow> string \<Rightarrow> row_values option list" where
  "test_load_csv path geo_type' =
     (if path = ''path/a.csv''
      then [Some (make_row ''a1'' 1), Some (make_row ''a2'' 2), Some (make_row ''a3'' 3)]
      else if path = ''path/b.csv''
      then [Some (make_row ''b1'' 1), None, Some (make_row ''b3'' 3)]
      else [])"

definition record_call :: "upsert_call \<Rightarrow> upsert_call list \<Rightarrow> unit + upsert_call list" where
  "record_call call calls = Inr (calls @ [call])"

section \<open>Properties of the writes\<close>

lemma find_map_upd_same:
  assumes "\<And>r. row_key (f r) = row_key r"
  shows "find (\<lambda>r. row_key r = k) (map (\<lambda>r. if row_key r = k then f r else r) tbl) =
         map_option f (find (\<lambda>r. row_key r = k) tbl)"
  using assms by (induction tbl) auto

lemma find_map_upd_other:
  assumes "\<And>r. row_key (f r) = row_key r" "k' \<noteq> k"
  shows "find (\<lambda>r. row_key r = k') (map (\<lambda>r. if row_key r = k then f r else r) tbl) =
         find (\<lambda>r. row_key r = k') tbl"
  using assms by (induction tbl) auto

lemma map_key_upd:
  assumes "\<And>r. row_key (f r) = row_key r"
  shows "map row_key (map (\<lambda>r. if P r then f r else r) tbl) = map row_key tbl"
  using assms by (induction tbl) auto

lemma lookup_None_iff: "lookup tbl k = None \<longleftrightarrow> k \<notin> set (map row_key tbl)"
  by (auto simp: lookup_def find_None_iff)

lemma row_key_eq_iff:
  "row_key r = (s, g, tt, gt, tv, gv) \<longleftrightarrow>
     source r = s \<and> signal r = g \<and> time_type r = tt \<and> geo_type r = gt \<and>
     time_value r = tv \<and> geo_value r = gv"
  by (auto simp: row_key_def)

lemma series_key_eq_iff:
  "series_key r = (s, g, tt, gt, gv) \<longleftrightarrow>
     source r = s \<and> signal r = g \<and> time_type r = tt \<and> geo_type r = gt \<and> geo_value r = gv"
  by (auto simp: series_key_def)

lemma unique_keys_filter_le1:
  "unique_keys tbl \<Longrightarrow> length (filter (\<lambda>r. row_key r = k) tbl) \<le> 1"
  unfolding unique_keys_def
proof (induction tbl)
  case Nil
  then show ?case by simp
next
  case (Cons a tbl)
  show ?case
  proof (cases "row_key a = k")
    case True
    with Cons.prems have "k \<notin> row_key ` set tbl" by simp
    then have "\<forall>r\<in>set tbl. row_key r \<noteq> k" by blast
    then have "filter (\<lambda>r. row_key r = k) tbl = []" by (simp add: filter_empty_conv)
    with True show ?thesis by simp
  next
    case False
    with Cons show ?thesis by simp
  qed
qed

lemma find_append_None: "find P xs = None \<Longrightarrow> find P (xs @ ys) = find P ys"
  by (induction xs) (auto split: if_splits)

text \<open>
  C4 (as the code has it). When the key is in the table, \<open>insert_or_update\<close> overwrites
  \<open>value\<close>, \<open>stderr\<close> and \<open>sample_size\<close> and sets \<open>timestamp1\<close> to the clock's reading;
  no row is added and no key changes (the duplicate key is the update path, not an
  error); \<open>direction\<close> and \<open>timestamp2\<close> of the row and every other row stay as they were.
  A read of the key then returns the new values. \<open>timestamp1\<close> is larger than before
  exactly when the clock's reading, in whole seconds, is later than the old
  \<open>timestamp1\<close>.
\<close>

theorem upsert_existing:
  assumes "lookup tbl (s, g, tt, gt, tv, gv) = Some r"
  shows "lookup (insert_or_update now s g tt gt tv gv v se ss tbl) (s, g, tt, gt, tv, gv) =
           Some (r\<lparr>timestamp1 := now, val := v, stderr := se, sample_size := ss\<rparr>) \<and>
         map row_key (insert_or_update now s g tt gt tv gv v se ss tbl) = map row_key tbl \<and>
         (\<forall>k'. k' \<noteq> (s, g, tt, gt, tv, gv) \<longrightarrow>
            lookup (insert_or_update now s g tt gt tv gv v se ss tbl) k' = lookup tbl k') \<and>
         (\<forall>r'. lookup (insert_or_update now s g tt gt tv gv v se ss tbl) (s, g, tt, gt, tv, gv)
                 = Some r' \<longrightarrow>
            val r' = v \<and> stderr r' = se \<and> sample_size r' = ss \<and> timestamp1 r' = now \<and>
            direction r' = direction r \<and> timestamp2 r' = timestamp2 r \<and>
            (timestamp1 r < timestamp1 r' \<longleftrightarrow> timestamp1 r < now))"
proof -
  let ?k = "(s, g, tt, gt, tv, gv)"
  let ?f = "\<lambda>r::row. r\<lparr>timestamp1 := now, val := v, stderr := se, sample_size := ss\<rparr>"
  have key: "\<And>r. row_key (?f r) = row_key r" by (simp add: row_key_def)
  have mem: "?k \<in> set (map row_key tbl)"
    using assms lookup_None_iff[of tbl ?k] by auto
  have eq: "insert_or_update now s g tt gt tv gv v se ss tbl =
        map (\<lambda>r. if row_key r = ?k then ?f r else r) tbl"
    using mem by (simp add: insert_or_update_def)
  have 1: "lookup (insert_or_update now s g tt gt tv gv v se ss tbl) ?k = Some (?f r)"
    unfolding eq using assms by (simp add: lookup_def find_map_upd_same[of ?f, OF key])
  have 2: "map row_key (insert_or_update now s g tt gt tv gv v se ss tbl) = map row_key tbl"
    unfolding eq by (rule map_key_upd[of ?f, OF key])
  have 3: "\<forall>k'. k' \<noteq> ?k \<longrightarrow>
            lookup (insert_or_update now s g tt gt tv gv v se ss tbl) k' = lookup tbl k'"
    unfolding eq by (simp add: lookup_def find_map_upd_other[of ?f, OF key])
  show ?thesis using 1 2 3 by auto
qed

theorem upsert_existing_witness:
  "lookup [fresh_row] (''src'', ''sig'', ''day'', ''county'', 20200419, ''01001'') = Some fresh_row \<and>
   lookup (insert_or_update 200 ''src'' ''sig'' ''day'' ''county'' 20200419 ''01001'' 2 (Some 3) (Some 4)
             [fresh_row]) (''src'', ''sig'', ''day'', ''county'', 20200419, ''01001'') =
     Some (fresh_row\<lparr>timestamp1 := 200, val := 2, stderr := Some 3, sample_size := Some 4\<rparr>) \<and>
   direction (fresh_row\<lparr>timestamp1 := 200, val := 2, stderr := Some 3, sample_size := Some 4\<rparr>) = Some 1 \<and>
   timestamp2 (fresh_row\<lparr>timestamp1 := 200, val := 2, stderr := Some 3, sample_size := Some 4\<rparr>) = 150"
proof -
  have h: "lookup [fresh_row] (''src'', ''sig'', ''day'', ''county'', 20200419, ''01001'') = Some fresh_row"
    by (simp add: lookup_def fresh_row_def day_row_def row_key_def)
  from upsert_existing[OF h, of 200 2 "Some 3" "Some 4"] h show ?thesis
    by (simp add: fresh_row_def day_row_def)
qed

text \<open>
  C4 as stated says that \<open>timestamp1\<close> has strictly increased after the second write.
  A second write within the same second of the clock leaves it equal.
\<close>

theorem upsert_same_second_counterexample:
  "lookup [fresh_row] (''src'', ''sig'', ''day'', ''county'', 20200419, ''01001'') = Some fresh_row \<and>
   lookup (insert_or_update 100 ''src'' ''sig'' ''day'' ''county'' 20200419 ''01001'' 2 (Some 3) (Some 4)
             [fresh_row]) (''src'', ''sig'', ''day'', ''county'', 20200419, ''01001'') =
     Some (fresh_row\<lparr>val := 2, stderr := Some 3, sample_size := Some 4\<rparr>) \<and>
   \<not> timestamp1 fresh_row <
     timestamp1 (fresh_row\<lparr>val := 2, stderr := Some 3, sample_size := Some 4\<rparr>)"
  by (simp add: lookup_def insert_or_update_def fresh_row_def day_row_def row_key_def)

text \<open>
  C9. When the key is not in the table, \<open>insert_or_update\<close> adds the row with
  \<open>direction = NULL\<close>, \<open>timestamp2 = 0\<close> and \<open>timestamp1\<close> the clock's reading; the clock
  reading a time after the epoch, the new row has \<open>timestamp1 > timestamp2\<close>.
\<close>

theorem insert_new_row:
  assumes "lookup tbl (s, g, tt, gt, tv, gv) = None" and "0 < now"
  shows "insert_or_update now s g tt gt tv gv v se ss tbl =
           tbl @ [\<lparr>source = s, signal = g, time_type = tt, geo_type = gt, time_value = tv,
                   geo_value = gv, timestamp1 = now, val = v, stderr = se, sample_size = ss,
                   timestamp2 = 0, direction = None\<rparr>] \<and>
         (\<exists>r. lookup (insert_or_update now s g tt gt tv gv v se ss tbl) (s, g, tt, gt, tv, gv)
                 = Some r \<and>
              direction r = None \<and> timestamp2 r = 0 \<and> timestamp1 r = now \<and>
              timestamp2 r < timestamp1 r)"
proof -
  let ?k = "(s, g, tt, gt, tv, gv)"
  let ?new = "\<lparr>source = s, signal = g, time_type = tt, geo_type = gt, time_value = tv,
               geo_value = gv, timestamp1 = now, val = v, stderr = se, sample_size = ss,
               timestamp2 = 0, direction = None\<rparr>"
  have nomem: "?k \<notin> set (map row_key tbl)"
    using assms(1) by (simp add: lookup_None_iff)
  have eq: "insert_or_update now s g tt gt tv gv v se ss tbl = tbl @ [?new]"
    using nomem by (simp add: insert_or_update_def)
  have "find (\<lambda>r. row_key r = ?k) tbl = None"
    using assms(1) by (simp add: lookup_def)
  then have "lookup (tbl @ [?new]) ?k = Some ?new"
    by (simp add: lookup_def find_append_None row_key_def)
  with eq assms(2) show ?thesis by simp
qed

theorem insert_new_row_witness:
  "lookup [fresh_row] (''src'', ''sig'', ''day'', ''county'', 20200420, ''01001'') = None \<and>
   (0::int) < 200 \<and>
   insert_or_update 200 ''src'' ''sig'' ''day'' ''county'' 20200420 ''01001'' 2 None None [fresh_row] =
     [fresh_row, (day_row ''01001'' 20200420 200 0)\<lparr>val := 2\<rparr>]"
proof -
  have h: "lookup [fresh_row] (''src'', ''sig'', ''day'', ''county'', 20200420, ''01001'') = None"
    by (simp add: lookup_def fresh_row_def day_row_def row_key_def)
  from insert_new_row[OF h, of 200 2 None None] h show ?thesis
    by (simp add: day_row_def)
qed

text \<open>
  C3. \<open>update_timeseries_timestamp2\<close> sets \<open>timestamp2\<close> to the clock's reading in every
  row of the series, whatever its timestamps were, changes nothing else in those rows,
  and leaves every row outside the series as it was.
\<close>

theorem update_timeseries_timestamp2_series:
  "length (update_timeseries_timestamp2 now s g tt gt gv tbl) = length tbl \<and>
   (\<forall>i<length tbl.
      (series_key (tbl ! i) = (s, g, tt, gt, gv) \<longrightarrow>
         update_timeseries_timestamp2 now s g tt gt gv tbl ! i = (tbl ! i)\<lparr>timestamp2 := now\<rparr>) \<and>
      (series_key (tbl ! i) \<noteq> (s, g, tt, gt, gv) \<longrightarrow>
         update_timeseries_timestamp2 now s g tt gt gv tbl ! i = tbl ! i)) \<and>
   (\<forall>r\<in>set (update_timeseries_timestamp2 now s g tt gt gv tbl).
      series_key r = (s, g, tt, gt, gv) \<longrightarrow> timestamp2 r = now)"
proof -
  have a: "length (update_timeseries_timestamp2 now s g tt gt gv tbl) = length tbl"
    by (simp add: update_timeseries_timestamp2_def)
  have b: "\<forall>i<length tbl.
      (series_key (tbl ! i) = (s, g, tt, gt, gv) \<longrightarrow>
         update_timeseries_timestamp2 now s g tt gt gv tbl ! i = (tbl ! i)\<lparr>timestamp2 := now\<rparr>) \<and>
      (series_key (tbl ! i) \<noteq> (s, g, tt, gt, gv) \<longrightarrow>
         update_timeseries_timestamp2 now s g tt gt gv tbl ! i = tbl ! i)"
    by (simp add: update_timeseries_timestamp2_def series_key_eq_iff)
  have c: "\<forall>r\<in>set (update_timeseries_timestamp2 now s g tt gt gv tbl).
      series_key r = (s, g, tt, gt, gv) \<longrightarrow> timestamp2 r = now"
  proof
    fix r
    assume "r \<in> set (update_timeseries_timestamp2 now s g tt gt gv tbl)"
    then obtain x where r: "r = (if series_key x = (s, g, tt, gt, gv)
                                 then x\<lparr>timestamp2 := now\<rparr> else x)"
      unfolding update_timeseries_timestamp2_def series_key_eq_iff set_map by blast
    show "series_key r = (s, g, tt, gt, gv) \<longrightarrow> timestamp2 r = now"
    proof (cases "series_key x = (s, g, tt, gt, gv)")
      case True
      then show ?thesis unfolding r by simp
    next
      case False
      then show ?thesis unfolding r by simp
    qed
  qed
  show ?thesis by (rule conjI[OF a conjI[OF b c]])
qed

theorem update_timeseries_timestamp2_series_witness:
  "update_timeseries_timestamp2 200 ''src'' ''sig'' ''day'' ''county'' ''01001''
       [fresh_row, stale_row, other_row] ! 0 = fresh_row\<lparr>timestamp2 := 200\<rparr> \<and>
   update_timeseries_timestamp2 200 ''src'' ''sig'' ''day'' ''county'' ''01001''
       [fresh_row, stale_row, other_row] ! 1 = stale_row\<lparr>timestamp2 := 200\<rparr> \<and>
   update_timeseries_timestamp2 200 ''src'' ''sig'' ''day'' ''county'' ''01001''
       [fresh_row, stale_row, other_row] ! 2 = other_row \<and>
   timestamp1 fresh_row < timestamp2 fresh_row"
proof -
  let ?tbl = "[fresh_row, stale_row, other_row]"
  have k0: "series_key (?tbl ! 0) = (''src'', ''sig'', ''day'', ''county'', ''01001'')"
    by (simp add: series_key_def fresh_row_def day_row_def)
  have k1: "series_key (?tbl ! 1) = (''src'', ''sig'', ''day'', ''county'', ''01001'')"
    by (simp add: series_key_def stale_row_def day_row_def)
  have k2: "series_key (?tbl ! 2) \<noteq> (''src'', ''sig'', ''day'', ''county'', ''01001'')"
    by (simp add: series_key_def other_row_def day_row_def)
  have l: "(0::nat) < length ?tbl" "(1::nat) < length ?tbl" "(2::nat) < length ?tbl" by simp_all
  note t = update_timeseries_timestamp2_series[of 200 "''src''" "''sig''" "''day''" "''county''" "''01001''" ?tbl]
  from t l(1) k0 have r0: "update_timeseries_timestamp2 200 ''src'' ''sig'' ''day'' ''county'' ''01001'' ?tbl ! 0
      = (?tbl ! 0)\<lparr>timestamp2 := 200\<rparr>" by blast
  from t l(2) k1 have r1: "update_timeseries_timestamp2 200 ''src'' ''sig'' ''day'' ''county'' ''01001'' ?tbl ! 1
      = (?tbl ! 1)\<lparr>timestamp2 := 200\<rparr>" by blast
  from t l(3) k2 have r2: "update_timeseries_timestamp2 200 ''src'' ''sig'' ''day'' ''county'' ''01001'' ?tbl ! 2
      = ?tbl ! 2" by blast
  have f: "timestamp1 fresh_row < timestamp2 fresh_row"
    by (simp add: fresh_row_def day_row_def)
  from r0 r1 r2 f show ?thesis by simp
qed

text \<open>
  C5. \<open>update_direction\<close> sets \<open>direction\<close> and \<open>timestamp2\<close> in the rows whose six key
  columns match, of which a table with unique keys has at most one; \<open>value\<close>, \<open>stderr\<close>,
  \<open>sample_size\<close> and \<open>timestamp1\<close> of that row and all other rows stay as they were.
\<close>

theorem update_direction_single_row:
  "length (update_direction now s g tt gt tv gv dir tbl) = length tbl \<and>
   (\<forall>i<length tbl.
      (row_key (tbl ! i) = (s, g, tt, gt, tv, gv) \<longrightarrow>
         update_direction now s g tt gt tv gv dir tbl ! i =
           (tbl ! i)\<lparr>timestamp2 := now, direction := dir\<rparr> \<and>
         val (update_direction now s g tt gt tv gv dir tbl ! i) = val (tbl ! i) \<and>
         stderr (update_direction now s g tt gt tv gv dir tbl ! i) = stderr (tbl ! i) \<and>
         sample_size (update_direction now s g tt gt tv gv dir tbl ! i) = sample_size (tbl ! i) \<and>
         timestamp1 (update_direction now s g tt gt tv gv dir tbl ! i) = timestamp1 (tbl ! i)) \<and>
      (row_key (tbl ! i) \<noteq> (s, g, tt, gt, tv, gv) \<longrightarrow>
         update_direction now s g tt gt tv gv dir tbl ! i = tbl ! i)) \<and>
   (unique_keys tbl \<longrightarrow>
      length (filter (\<lambda>r. row_key r = (s, g, tt, gt, tv, gv)) tbl) \<le> 1)"
proof -
  have a: "length (update_direction now s g tt gt tv gv dir tbl) = length tbl"
    by (simp add: update_direction_def)
  have b: "\<forall>i<length tbl.
      (row_key (tbl ! i) = (s, g, tt, gt, tv, gv) \<longrightarrow>
         update_direction now s g tt gt tv gv dir tbl ! i =
           (tbl ! i)\<lparr>timestamp2 := now, direction := dir\<rparr> \<and>
         val (update_direction now s g tt gt tv gv dir tbl ! i) = val (tbl ! i) \<and>
         stderr (update_direction now s g tt gt tv gv dir tbl ! i) = stderr (tbl ! i) \<and>
         sample_size (update_direction now s g tt gt tv gv dir tbl ! i) = sample_size (tbl ! i) \<and>
         timestamp1 (update_direction now s g tt gt tv gv dir tbl ! i) = timestamp1 (tbl ! i)) \<and>
      (row_key (tbl ! i) \<noteq> (s, g, tt, gt, tv, gv) \<longrightarrow>
         update_direction now s g tt gt tv gv dir tbl ! i = tbl ! i)"
    by (simp add: update_direction_def row_key_eq_iff)
  have c: "unique_keys tbl \<longrightarrow>
      length (filter (\<lambda>r. row_key r = (s, g, tt, gt, tv, gv)) tbl) \<le> 1"
    using unique_keys_filter_le1[of tbl "(s, g, tt, gt, tv, gv)"] by (rule impI)
  show ?thesis by (rule conjI[OF a conjI[OF b c]])
qed

theorem update_direction_single_row_witness:
  "unique_keys [fresh_row, stale_row, other_row] \<and>
   update_direction 200 ''src'' ''sig'' ''day'' ''county'' 20200418 ''01001'' (Some (-1))
       [fresh_row, stale_row, other_row] ! 1 = stale_row\<lparr>timestamp2 := 200, direction := Some (-1)\<rparr> \<and>
   update_direction 200 ''src'' ''sig'' ''day'' ''county'' 20200418 ''01001'' (Some (-1))
       [fresh_row, stale_row, other_row] ! 0 = fresh_row \<and>
   update_direction 200 ''src'' ''sig'' ''day'' ''county'' 20200418 ''01001'' (Some (-1))
       [fresh_row, stale_row, other_row] ! 2 = other_row \<and>
   length (filter (\<lambda>r. row_key r = (''src'', ''sig'', ''day'', ''county'', 20200418, ''01001''))
       [fresh_row, stale_row, other_row]) \<le> 1"
proof -
  let ?tbl = "[fresh_row, stale_row, other_row]"
  let ?k = "(''src'', ''sig'', ''day'', ''county'', 20200418, ''01001'')"
  have u: "unique_keys ?tbl"
    by (simp add: unique_keys_def row_key_def fresh_row_def stale_row_def other_row_def day_row_def)
  have k0: "row_key (?tbl ! 0) \<noteq> ?k"
    by (simp add: row_key_def fresh_row_def day_row_def)
  have k1: "row_key (?tbl ! 1) = ?k"
    by (simp add: row_key_def stale_row_def day_row_def)
  have k2: "row_key (?tbl ! 2) \<noteq> ?k"
    by (simp add: row_key_def other_row_def day_row_def)
  have l: "(0::nat) < length ?tbl" "(1::nat) < length ?tbl" "(2::nat) < length ?tbl" by simp_all
  note t = update_direction_single_row[of 200 "''src''" "''sig''" "''day''" "''county''" 20200418 "''01001''" "Some (-1)" ?tbl]
  from t l(1) k0 have r0: "update_direction 200 ''src'' ''sig'' ''day'' ''county'' 20200418 ''01001'' (Some (-1)) ?tbl ! 0
      = ?tbl ! 0" by blast
  from t l(2) k1 have r1: "update_direction 200 ''src'' ''sig'' ''day'' ''county'' 20200418 ''01001'' (Some (-1)) ?tbl ! 1
      = (?tbl ! 1)\<lparr>timestamp2 := 200, direction := Some (-1)\<rparr>" by blast
  from t l(3) k2 have r2: "update_direction 200 ''src'' ''sig'' ''day'' ''county'' 20200418 ''01001'' (Some (-1)) ?tbl ! 2
      = ?tbl ! 2" by blast
  from t u have c: "length (filter (\<lambda>r. row_key r = ?k) ?tbl) \<le> 1" by blast
  from u r0 r1 r2 c show ?thesis by simp
qed

section \<open>Properties of the reads\<close>

subsection \<open>Aggregates and groups\<close>

lemma fold_max_Max: "fold max xs (x::int) = Max (set (x # xs))"
  by (rule Max.set_eq_fold[symmetric])

lemma fold_min_Min: "fold min xs (x::int) = Min (set (x # xs))"
  by (rule Min.set_eq_fold[symmetric])

lemma sql_max_Some_iff: "sql_max xs = Some m \<longleftrightarrow> xs \<noteq> [] \<and> m = Max (set xs)"
  by (cases xs) (auto simp: fold_max_Max simp del: Max_insert set_simps)

lemma sql_min_Some_iff: "sql_min xs = Some m \<longleftrightarrow> xs \<noteq> [] \<and> m = Min (set xs)"
  by (cases xs) (auto simp: fold_min_Min simp del: Min_insert set_simps)

lemma sql_max_nonempty: "xs \<noteq> [] \<Longrightarrow> sql_max xs = Some (Max (set xs))"
  by (simp add: sql_max_Some_iff)

lemma sql_min_nonempty: "xs \<noteq> [] \<Longrightarrow> sql_min xs = Some (Min (set xs))"
  by (simp add: sql_min_Some_iff)

lemma group_by_set:
  "(k, g) \<in> set (group_by f xs) \<longleftrightarrow> k \<in> f ` set xs \<and> g = filter (\<lambda>x. f x = k) xs"
  by (auto simp: group_by_def)

lemma group_by_keys_distinct: "distinct (map fst (group_by f xs))"
  by (simp add: group_by_def comp_def)

lemma map_filter_set: "x \<in> set (List.map_filter h ys) \<longleftrightarrow> (\<exists>y\<in>set ys. h y = Some x)"
  by (auto simp: List.map_filter_def image_iff)

lemma group_nonempty: "k \<in> f ` set xs \<Longrightarrow> filter (\<lambda>x. f x = k) xs \<noteq> []"
  by (auto simp: filter_empty_conv)

lemma series_select_group:
  assumes "g \<noteq> []"
  shows "series_select ((s, sg, tt, gt, gv), g) =
          (if Min (set (map timestamp2 g)) < Max (set (map timestamp1 g))
           then Some (s, sg, gt, gv, Max (set (map timestamp1 g)), Min (set (map timestamp2 g)),
                      Min (set (map time_value g)), Max (set (map time_value g)), length g)
           else None)"
  using assms by (simp add: series_select_def sql_max_nonempty sql_min_nonempty)

lemma max_gt_min_iff:
  assumes "g \<noteq> []"
  shows "Min (set (map timestamp2 g)) < Max (set (map timestamp1 g)) \<longleftrightarrow>
         (\<exists>a\<in>set g. \<exists>b\<in>set g. timestamp2 b < timestamp1 a)"
proof -
  have ne: "set (map timestamp1 g) \<noteq> {}" "set (map timestamp2 g) \<noteq> {}" using assms by auto
  have "Min (set (map timestamp2 g)) < Max (set (map timestamp1 g)) \<longleftrightarrow>
        (\<exists>x\<in>set (map timestamp1 g). Min (set (map timestamp2 g)) < x)"
    using ne by (subst Max_gr_iff) auto
  also have "\<dots> \<longleftrightarrow> (\<exists>x\<in>set (map timestamp1 g). \<exists>y\<in>set (map timestamp2 g). y < x)"
    using ne by (simp add: Min_less_iff del: set_map)
  also have "\<dots> \<longleftrightarrow> (\<exists>a\<in>set g. \<exists>b\<in>set g. timestamp2 b < timestamp1 a)"
    by auto
  finally show ?thesis .
qed

lemma map_filter_Cons:
  "List.map_filter h (x # xs) = (case h x of None \<Rightarrow> List.map_filter h xs | Some t \<Rightarrow> t # List.map_filter h xs)"
  by (simp add: List.map_filter_def split: option.splits)

lemma distinct_map_filter_keys:
  assumes "distinct (map fst kgs)"
    and "\<And>k g t. (k, g) \<in> set kgs \<Longrightarrow> h (k, g) = Some t \<Longrightarrow> p t = q k"
    and "inj_on q (fst ` set kgs)"
  shows "distinct (map p (List.map_filter h kgs))"
  using assms
proof (induction kgs)
  case Nil
  then show ?case by (simp add: List.map_filter_def)
next
  case (Cons x kgs)
  obtain k g where x: "x = (k, g)" by (cases x)
  have IH: "distinct (map p (List.map_filter h kgs))"
  proof (rule Cons.IH)
    show "distinct (map fst kgs)" using Cons.prems(1) by simp
    show "\<And>k g t. (k, g) \<in> set kgs \<Longrightarrow> h (k, g) = Some t \<Longrightarrow> p t = q k"
      using Cons.prems(2) by (meson list.set_intros(2))
    show "inj_on q (fst ` set kgs)"
      using Cons.prems(3) by (simp add: inj_on_def)
  qed
  show ?case
  proof (cases "h x")
    case None
    with IH show ?thesis by (simp add: map_filter_Cons)
  next
    case (Some t)
    have pt: "p t = q k" using Cons.prems(2)[of k g t] Some x by simp
    have "p t \<notin> p ` set (List.map_filter h kgs)"
    proof
      assume "p t \<in> p ` set (List.map_filter h kgs)"
      then obtain t' where t': "t' \<in> set (List.map_filter h kgs)" "p t' = p t" by auto
      then obtain k' g' where kg': "(k', g') \<in> set kgs" "h (k', g') = Some t'"
        unfolding map_filter_set by auto
      then have "p t' = q k'" using Cons.prems(2)[of k' g' t'] by simp
      with pt t'(2) have "q k = q k'" by simp
      moreover have "k \<in> fst ` set (x # kgs)" using x by simp
      moreover have "k' \<in> fst ` set (x # kgs)" using kg'(1) by force
      ultimately have "k = k'" using Cons.prems(3) by (meson inj_onD)
      with kg'(1) have "k \<in> fst ` set kgs" by force
      with Cons.prems(1) x show False by simp
    qed
    with IH Some show ?thesis by (simp add: map_filter_Cons)
  qed
qed

subsection \<open>Series that may be stale\<close>

lemma potentially_stale_mem:
  "t \<in> set (get_keys_with_potentially_stale_direction tbl) \<longleftrightarrow>
     (\<exists>s sg gt gv. series_rows tbl s sg gt gv \<noteq> [] \<and>
        Min (set (map timestamp2 (series_rows tbl s sg gt gv)))
          < Max (set (map timestamp1 (series_rows tbl s sg gt gv))) \<and>
        t = (s, sg, gt, gv, Max (set (map timestamp1 (series_rows tbl s sg gt gv))),
             Min (set (map timestamp2 (series_rows tbl s sg gt gv))),
             Min (set (map time_value (series_rows tbl s sg gt gv))),
             Max (set (map time_value (series_rows tbl s sg gt gv))),
             length (series_rows tbl s sg gt gv)))"
  (is "?L \<longleftrightarrow> ?R")
proof
  let ?days = "filter (\<lambda>r. time_type r = ''day'') tbl"
  have grp: "\<And>s sg gt gv. filter (\<lambda>r. series_key r = (s, sg, ''day'', gt, gv)) ?days
       = series_rows tbl s sg gt gv"
    unfolding series_rows_def filter_filter
    by (rule filter_cong) (auto simp: series_key_def)
  {
    assume ?L
    then obtain k g where kg: "(k, g) \<in> set (group_by series_key ?days)"
      and sel: "series_select (k, g) = Some t"
      unfolding get_keys_with_potentially_stale_direction_def map_filter_set by auto
    from kg have kin: "k \<in> series_key ` set ?days" and g: "g = filter (\<lambda>r. series_key r = k) ?days"
      by (simp_all add: group_by_set)
    from kin obtain s sg gt gv where k: "k = (s, sg, ''day'', gt, gv)"
      by (auto simp: series_key_def)
    from g k grp have g': "g = series_rows tbl s sg gt gv" by simp
    from kin g have ne: "g \<noteq> []" using group_nonempty[of k series_key ?days] by simp
    from ne g' have ne': "series_rows tbl s sg gt gv \<noteq> []" by simp
    from sel k g' have "series_select ((s, sg, ''day'', gt, gv), series_rows tbl s sg gt gv) = Some t"
      by simp
    then show ?R unfolding series_select_group[OF ne'] using ne'
      by (auto split: if_splits)
  }
  {
    assume ?R
    then obtain s sg gt gv where ne: "series_rows tbl s sg gt gv \<noteq> []"
      and lt: "Min (set (map timestamp2 (series_rows tbl s sg gt gv)))
          < Max (set (map timestamp1 (series_rows tbl s sg gt gv)))"
      and t: "t = (s, sg, gt, gv, Max (set (map timestamp1 (series_rows tbl s sg gt gv))),
             Min (set (map timestamp2 (series_rows tbl s sg gt gv))),
             Min (set (map time_value (series_rows tbl s sg gt gv))),
             Max (set (map time_value (series_rows tbl s sg gt gv))),
             length (series_rows tbl s sg gt gv))"
      by blast
    let ?k = "(s, sg, ''day'', gt, gv)"
    let ?g = "series_rows tbl s sg gt gv"
    from ne obtain r where r: "r \<in> set tbl" "series_key r = ?k"
      unfolding series_rows_def by (auto simp: filter_empty_conv)
    then have "time_type r = ''day''" by (simp add: series_key_def)
    with r have kin: "?k \<in> series_key ` set ?days" by force
    then have "(?k, filter (\<lambda>r. series_key r = ?k) ?days) \<in> set (group_by series_key ?days)"
      unfolding group_by_set by blast
    then have "(?k, ?g) \<in> set (group_by series_key ?days)"
      unfolding grp .
    moreover have "series_select (?k, ?g) = Some t"
      using lt t by (simp add: series_select_group[OF ne])
    ultimately show ?L
      unfolding get_keys_with_potentially_stale_direction_def map_filter_set by blast
  }
qed

lemma potentially_stale_distinct:
  "distinct (map series_of (get_keys_with_potentially_stale_direction tbl))"
  unfolding get_keys_with_potentially_stale_direction_def
proof (rule distinct_map_filter_keys[where q = "\<lambda>(s, sg, tt, gt, gv). (s, sg, gt, gv)"])
  let ?days = "filter (\<lambda>r. time_type r = ''day'') tbl"
  show "distinct (map fst (group_by series_key ?days))" by (rule group_by_keys_distinct)
  show "\<And>k g t. (k, g) \<in> set (group_by series_key ?days) \<Longrightarrow> series_select (k, g) = Some t \<Longrightarrow>
      series_of t = (case k of (s, sg, tt, gt, gv) \<Rightarrow> (s, sg, gt, gv))"
    by (auto simp: series_select_def series_of_def split: option.splits if_splits prod.splits)
  have "\<And>k. k \<in> fst ` set (group_by series_key ?days) \<Longrightarrow> fst (snd (snd k)) = ''day''"
    by (auto simp: group_by_def series_key_def)
  then show "inj_on (\<lambda>(s, sg, tt, gt, gv). (s, sg, gt, gv)) (fst ` set (group_by series_key ?days))"
    unfolding inj_on_def by (auto simp: group_by_def series_key_def)
qed

text \<open>
  C2 (as the code has it). \<open>get_keys_with_potentially_stale_direction\<close> reads only daily
  rows and has no \<open>LIMIT\<close>: it returns a series, once, exactly when the largest
  \<open>timestamp1\<close> of the series is greater than its smallest \<open>timestamp2\<close>, that is when
  some row \<open>a\<close> and some row \<open>b\<close> of the series (the same row or not) have
  \<open>a.timestamp1 > b.timestamp2\<close>. In particular every series with a row whose own
  \<open>timestamp1\<close> is greater than its \<open>timestamp2\<close> is returned.
\<close>

theorem potentially_stale_series:
  "((\<exists>mx mn lo hi n. (s, sg, gt, gv, mx, mn, lo, hi, n)
        \<in> set (get_keys_with_potentially_stale_direction tbl)) \<longleftrightarrow>
    (\<exists>a\<in>set (series_rows tbl s sg gt gv). \<exists>b\<in>set (series_rows tbl s sg gt gv).
        timestamp2 b < timestamp1 a)) \<and>
   ((\<exists>a\<in>set (series_rows tbl s sg gt gv). timestamp2 a < timestamp1 a) \<longrightarrow>
    (\<exists>mx mn lo hi n. (s, sg, gt, gv, mx, mn, lo, hi, n)
        \<in> set (get_keys_with_potentially_stale_direction tbl))) \<and>
   distinct (map series_of (get_keys_with_potentially_stale_direction tbl))"
proof -
  let ?g = "series_rows tbl s sg gt gv"
  let ?L = "\<exists>mx mn lo hi n. (s, sg, gt, gv, mx, mn, lo, hi, n)
        \<in> set (get_keys_with_potentially_stale_direction tbl)"
  let ?R = "\<exists>a\<in>set ?g. \<exists>b\<in>set ?g. timestamp2 b < timestamp1 a"
  have "?L \<longleftrightarrow> ?g \<noteq> [] \<and> Min (set (map timestamp2 ?g)) < Max (set (map timestamp1 ?g))"
    unfolding potentially_stale_mem by auto
  also have "\<dots> \<longleftrightarrow> ?g \<noteq> [] \<and> ?R"
    using max_gt_min_iff[of ?g] by blast
  also have "\<dots> \<longleftrightarrow> ?R" by auto
  finally have iff: "?L \<longleftrightarrow> ?R" .
  have imp: "(\<exists>a\<in>set ?g. timestamp2 a < timestamp1 a) \<longrightarrow> ?L"
    unfolding iff by blast
  show ?thesis by (rule conjI[OF iff conjI[OF imp potentially_stale_distinct]])
qed

theorem potentially_stale_series_witness:
  "stale_row \<in> set (series_rows [fresh_row, stale_row, other_row] ''src'' ''sig'' ''county'' ''01001'') \<and>
   timestamp2 stale_row < timestamp1 stale_row \<and>
   (\<exists>mx mn lo hi n. (''src'', ''sig'', ''county'', ''01001'', mx, mn, lo, hi, n)
        \<in> set (get_keys_with_potentially_stale_direction [fresh_row, stale_row, other_row]))"
proof -
  let ?tbl = "[fresh_row, stale_row, other_row]"
  have m: "stale_row \<in> set (series_rows ?tbl ''src'' ''sig'' ''county'' ''01001'')"
    by (simp add: series_rows_def series_key_def stale_row_def day_row_def)
  have lt: "timestamp2 stale_row < timestamp1 stale_row"
    by (simp add: stale_row_def day_row_def)
  from m lt have "\<exists>a\<in>set (series_rows ?tbl ''src'' ''sig'' ''county'' ''01001''). timestamp2 a < timestamp1 a"
    by blast
  with potentially_stale_series[of "''src''" "''sig''" "''county''" "''01001''" ?tbl]
  have "\<exists>mx mn lo hi n. (''src'', ''sig'', ''county'', ''01001'', mx, mn, lo, hi, n)
        \<in> set (get_keys_with_potentially_stale_direction ?tbl)"
    by blast
  with m lt show ?thesis by blast
qed

text \<open>
  C2 as stated says that a series is returned only if one of its rows has
  \<open>timestamp1 > timestamp2\<close>. A series of two rows, each with \<open>timestamp1 \<le> timestamp2\<close>, is
  returned when the \<open>timestamp1\<close> of one is greater than the \<open>timestamp2\<close> of the other.
\<close>

theorem potentially_stale_series_counterexample:
  "get_keys_with_potentially_stale_direction
      [day_row ''01001'' 20200418 5 10, day_row ''01001'' 20200419 1 3] =
     [(''src'', ''sig'', ''county'', ''01001'', 5, 3, 20200418, 20200419, 2)] \<and>
   \<not> timestamp2 (day_row ''01001'' 20200418 5 10) < timestamp1 (day_row ''01001'' 20200418 5 10) \<and>
   \<not> timestamp2 (day_row ''01001'' 20200419 1 3) < timestamp1 (day_row ''01001'' 20200419 1 3)"
proof -
  have a: "get_keys_with_potentially_stale_direction
      [day_row ''01001'' 20200418 5 10, day_row ''01001'' 20200419 1 3] =
     [(''src'', ''sig'', ''county'', ''01001'', 5, 3, 20200418, 20200419, 2)]"
    by (simp add: get_keys_with_potentially_stale_direction_def group_by_def series_select_def
        List.map_filter_def series_key_def day_row_def)
  have b: "\<not> timestamp2 (day_row ''01001'' 20200418 5 10) < timestamp1 (day_row ''01001'' 20200418 5 10)"
    by (simp add: day_row_def)
  have c: "\<not> timestamp2 (day_row ''01001'' 20200419 1 3) < timestamp1 (day_row ''01001'' 20200419 1 3)"
    by (simp add: day_row_def)
  show ?thesis by (rule conjI[OF a conjI[OF b c]])
qed

subsection \<open>The window of a direction\<close>

lemma window_filter_iff:
  "(source r = s \<and> signal r = sg \<and> time_type r = ''day'' \<and> geo_type r = gt \<and>
    geo_value r = gv \<and> between (DATEDIFF (time_value r) tv) (- 6) 0) \<longleftrightarrow>
   (series_key r = (s, sg, ''day'', gt, gv) \<and>
    (\<exists>k. DATEDIFF (time_value r) tv = Some k \<and> - 6 \<le> k \<and> k \<le> 0))"
  by (auto simp: series_key_def between_def split: option.splits)

lemma DATEDIFF_19_20: "DATEDIFF 20200419 20200420 = Some (- 1)"
  by (simp add: DATEDIFF_def is_date_def day_number_def days_in_month_def leap_year_def)

lemma DATEDIFF_18_20: "DATEDIFF 20200418 20200420 = Some (- 2)"
  by (simp add: DATEDIFF_def is_date_def day_number_def days_in_month_def leap_year_def)

lemma DATEDIFF_10_20: "DATEDIFF 20200410 20200420 = Some (- 10)"
  by (simp add: DATEDIFF_def is_date_def day_number_def days_in_month_def leap_year_def)

text \<open>
  C6. \<open>get_rows_to_compute_direction\<close> returns the \<open>(time_offset, value)\<close> pairs of exactly
  the daily rows of the series whose \<open>time_value\<close> is 0 to 6 days before the target date,
  each such row once, in ascending order of \<open>time_value\<close>; every offset returned lies
  between -6 and 0.
\<close>

theorem get_rows_to_compute_direction_window:
  "\<exists>rows.
     get_rows_to_compute_direction s sg gt tv gv tbl =
       map (\<lambda>r. (DATEDIFF (time_value r) tv, val r)) rows \<and>
     mset rows =
       filter_mset (\<lambda>r. series_key r = (s, sg, ''day'', gt, gv) \<and>
                        (\<exists>k. DATEDIFF (time_value r) tv = Some k \<and> - 6 \<le> k \<and> k \<le> 0))
         (mset tbl) \<and>
     sorted (map time_value rows) \<and>
     (\<forall>(off, v)\<in>set (get_rows_to_compute_direction s sg gt tv gv tbl).
        \<exists>k. off = Some k \<and> - 6 \<le> k \<and> k \<le> 0)"
proof -
  let ?P = "\<lambda>r. source r = s \<and> signal r = sg \<and> time_type r = ''day'' \<and> geo_type r = gt \<and>
                geo_value r = gv \<and> between (DATEDIFF (time_value r) tv) (- 6) 0"
  let ?Q = "\<lambda>r. series_key r = (s, sg, ''day'', gt, gv) \<and>
                (\<exists>k. DATEDIFF (time_value r) tv = Some k \<and> - 6 \<le> k \<and> k \<le> 0)"
  let ?rows = "sort_key time_value (filter ?P tbl)"
  have PQ: "?P = ?Q" by (rule ext) (rule window_filter_iff)
  have a: "get_rows_to_compute_direction s sg gt tv gv tbl =
       map (\<lambda>r. (DATEDIFF (time_value r) tv, val r)) ?rows"
    by (simp only: get_rows_to_compute_direction_def)
  have b: "mset ?rows = filter_mset ?Q (mset tbl)"
    unfolding PQ by simp
  have c: "sorted (map time_value ?rows)" by (rule sorted_sort_key)
  have d: "\<forall>(off, v)\<in>set (get_rows_to_compute_direction s sg gt tv gv tbl).
        \<exists>k. off = Some k \<and> - 6 \<le> k \<and> k \<le> 0"
  proof -
    have "\<forall>r\<in>set ?rows. \<exists>k. DATEDIFF (time_value r) tv = Some k \<and> - 6 \<le> k \<and> k \<le> 0"
      unfolding PQ by simp
    then show ?thesis unfolding a by simp
  qed
  show ?thesis
    by (rule exI[of _ ?rows]) (rule conjI[OF a conjI[OF b conjI[OF c d]]])
qed

theorem get_rows_to_compute_direction_window_witness:
  "get_rows_to_compute_direction ''src'' ''sig'' ''county'' 20200420 ''01001''
      [fresh_row, stale_row, other_row, old_row] = [(Some (- 2), 1), (Some (- 1), 1)] \<and>
   (\<exists>rows :: row list. get_rows_to_compute_direction ''src'' ''sig'' ''county'' 20200420 ''01001''
      [fresh_row, stale_row, other_row, old_row] =
        map (\<lambda>r. (DATEDIFF (time_value r) 20200420, val r)) rows \<and>
      sorted (map time_value rows))"
proof -
  let ?tbl = "[fresh_row, stale_row, other_row, old_row]"
  have e: "get_rows_to_compute_direction ''src'' ''sig'' ''county'' 20200420 ''01001'' ?tbl =
      [(Some (- 2), 1), (Some (- 1), 1)]"
    by (simp add: get_rows_to_compute_direction_def fresh_row_def stale_row_def other_row_def
        old_row_def day_row_def DATEDIFF_19_20 DATEDIFF_18_20 DATEDIFF_10_20 between_def)
  from get_rows_to_compute_direction_window[of "''src''" "''sig''" "''county''" 20200420 "''01001''" ?tbl]
  obtain rows :: "row list" where
    r1: "get_rows_to_compute_direction ''src'' ''sig'' ''county'' 20200420 ''01001'' ?tbl =
        map (\<lambda>r. (DATEDIFF (time_value r) 20200420, val r)) rows"
    and r2: "sorted (map time_value rows)"
    by (elim exE conjE)
  have "\<exists>rows :: row list. get_rows_to_compute_direction ''src'' ''sig'' ''county'' 20200420 ''01001'' ?tbl =
        map (\<lambda>r. (DATEDIFF (time_value r) 20200420, val r)) rows \<and>
      sorted (map time_value rows)"
    by (rule exI[of _ rows]) (rule conjI[OF r1 r2])
  with e show ?thesis by (rule conjI)
qed

subsection \<open>Rows with a stale direction\<close>

lemma unique_keys_inj: "unique_keys tbl \<Longrightarrow> inj_on row_key (set tbl)"
  unfolding unique_keys_def by (simp add: distinct_map)

lemma unique_keys_distinct: "unique_keys tbl \<Longrightarrow> distinct tbl"
  unfolding unique_keys_def by (simp add: distinct_map)

lemma filter_product_fst:
  assumes "distinct xs" and "c \<in> set xs"
  shows "filter (\<lambda>p. fst p = c \<and> Q p) (List.product xs ys) =
         map (Pair c) (filter (\<lambda>d. Q (c, d)) ys)"
  using assms
proof (induction xs)
  case Nil
  then show ?case by simp
next
  case (Cons x xs)
  show ?case
  proof (cases "x = c")
    case True
    with Cons.prems have "c \<notin> set xs" by simp
    then have "filter (\<lambda>p. fst p = c \<and> Q p) (List.product xs ys) = []"
      by (auto simp: filter_empty_conv)
    moreover have "filter (\<lambda>p. fst p = c \<and> Q p) (map (Pair c) ys) =
        map (Pair c) (filter (\<lambda>d. Q (c, d)) ys)"
      by (simp add: filter_map comp_def)
    ultimately show ?thesis using True by simp
  next
    case False
    then have "filter (\<lambda>p. fst p = c \<and> Q p) (map (Pair x) ys) = []"
      by (auto simp: filter_empty_conv)
    moreover have "filter (\<lambda>p. fst p = c \<and> Q p) (List.product xs ys) =
        map (Pair c) (filter (\<lambda>d. Q (c, d)) ys)"
      using Cons False by simp
    ultimately show ?thesis by simp
  qed
qed

lemma stale_join_set:
  "(c, d) \<in> set (stale_join tbl) \<longleftrightarrow>
     c \<in> set tbl \<and> d \<in> set tbl \<and> same_series c d \<and> time_type c = ''day'' \<and>
     between (DATEDIFF (time_value c) (time_value d)) 0 6"
  by (auto simp: stale_join_def)

lemma stale_group:
  assumes "unique_keys tbl" and "c \<in> set tbl" and "time_type c = ''day''"
  shows "filter (\<lambda>p. (case p of (c', d) \<Rightarrow> row_key c') = row_key c) (stale_join tbl) =
         map (Pair c) (window_rows tbl c)"
proof -
  let ?J = "\<lambda>p. case p of (c, d) \<Rightarrow> same_series c d \<and> time_type c = ''day'' \<and>
                       between (DATEDIFF (time_value c) (time_value d)) 0 6"
  have "filter (\<lambda>p. (case p of (c', d) \<Rightarrow> row_key c') = row_key c) (stale_join tbl) =
        filter (\<lambda>p. ?J p \<and> (case p of (c', d) \<Rightarrow> row_key c') = row_key c) (List.product tbl tbl)"
    unfolding stale_join_def by (simp only: filter_filter)
  also have "\<dots> = filter (\<lambda>p. fst p = c \<and> ?J p) (List.product tbl tbl)"
  proof (rule filter_cong[OF refl])
    fix p assume "p \<in> set (List.product tbl tbl)"
    then have "fst p \<in> set tbl" by auto
    with assms(1,2) have "row_key (fst p) = row_key c \<longleftrightarrow> fst p = c"
      using unique_keys_inj[OF assms(1)] by (auto dest: inj_onD)
    then show "(?J p \<and> (case p of (c', d) \<Rightarrow> row_key c') = row_key c) = (fst p = c \<and> ?J p)"
      by (cases p) auto
  qed
  also have "\<dots> = map (Pair c) (filter (\<lambda>d. ?J (c, d)) tbl)"
    by (rule filter_product_fst[OF unique_keys_distinct[OF assms(1)] assms(2)])
  also have "filter (\<lambda>d. ?J (c, d)) tbl = window_rows tbl c"
    unfolding window_rows_def using assms(3) by simp
  finally show ?thesis .
qed

lemma stale_select_group:
  "stale_select (row_key c, map (Pair c) W) =
     (if W \<noteq> [] \<and> timestamp2 c < Max (set (map timestamp1 W))
      then Some (row_key c, timestamp2 c, Max (set (map timestamp1 W)), length W)
      else None)"
proof (cases W)
  case Nil
  then show ?thesis by (simp add: stale_select_def)
next
  case (Cons d W')
  have m: "map (\<lambda>(c, d). timestamp1 d) (map (Pair c) W) = map timestamp1 W"
    by simp
  have ne: "map timestamp1 W \<noteq> []" using Cons by simp
  have "stale_select (row_key c, map (Pair c) W) =
      (case sql_max (map (\<lambda>(c, d). timestamp1 d) (map (Pair c) W)) of
                None \<Rightarrow> None
              | Some max_timestamp1 \<Rightarrow>
                  if max_timestamp1 > timestamp2 c
                  then Some (row_key c, timestamp2 c, max_timestamp1, length (map (Pair c) W))
                  else None)"
    unfolding stale_select_def using Cons by simp
  also have "\<dots> = (if timestamp2 c < Max (set (map timestamp1 W))
      then Some (row_key c, timestamp2 c, Max (set (map timestamp1 W)), length W)
      else None)"
    unfolding m sql_max_nonempty[OF ne] by simp
  finally show ?thesis using Cons by simp
qed

lemma stale_candidates_mem:
  assumes "unique_keys tbl"
  shows "r \<in> set (stale_candidates tbl) \<longleftrightarrow>
     (\<exists>c\<in>set tbl. time_type c = ''day'' \<and> stale_by_window tbl c \<and> r = stale_tuple tbl c)"
  (is "?L \<longleftrightarrow> ?R")
proof
  let ?key = "\<lambda>p. case p of (c, d) \<Rightarrow> row_key c"
  assume ?L
  then obtain k g where kg: "(k, g) \<in> set (group_by ?key (stale_join tbl))"
    and sel: "stale_select (k, g) = Some r"
    unfolding stale_candidates_def map_filter_set by auto
  from kg have kin: "k \<in> ?key ` set (stale_join tbl)"
    and g: "g = filter (\<lambda>p. ?key p = k) (stale_join tbl)"
    by (simp_all add: group_by_set)
  from kin obtain c d where cd: "(c, d) \<in> set (stale_join tbl)" and k: "k = row_key c"
    by auto
  from cd have c: "c \<in> set tbl" "time_type c = ''day''" by (simp_all add: stale_join_set)
  from g k have g': "g = map (Pair c) (window_rows tbl c)"
    using stale_group[OF assms c] by simp
  from sel have "stale_by_window tbl c \<and> r = stale_tuple tbl c"
    unfolding k g' stale_select_group stale_by_window_def stale_tuple_def
    by (auto split: if_splits)
  with c show ?R by blast
next
  let ?key = "\<lambda>p. case p of (c, d) \<Rightarrow> row_key c"
  assume ?R
  then obtain c where c: "c \<in> set tbl" "time_type c = ''day''"
    and st: "stale_by_window tbl c" and r: "r = stale_tuple tbl c" by blast
  from st have ne: "window_rows tbl c \<noteq> []" by (simp add: stale_by_window_def)
  then obtain d where d: "d \<in> set (window_rows tbl c)" by (cases "window_rows tbl c") auto
  then have "(c, d) \<in> set (stale_join tbl)"
    using c by (simp add: stale_join_set window_rows_def)
  then have "row_key c \<in> ?key ` set (stale_join tbl)" by force
  then have "(row_key c, filter (\<lambda>p. ?key p = row_key c) (stale_join tbl))
      \<in> set (group_by ?key (stale_join tbl))"
    unfolding group_by_set by blast
  then have "(row_key c, map (Pair c) (window_rows tbl c)) \<in> set (group_by ?key (stale_join tbl))"
    unfolding stale_group[OF assms c] .
  moreover have "stale_select (row_key c, map (Pair c) (window_rows tbl c)) = Some r"
    using st unfolding stale_select_group r stale_tuple_def stale_by_window_def by simp
  ultimately show ?L unfolding stale_candidates_def map_filter_set by blast
qed

lemma stale_candidates_distinct: "distinct (map fst (stale_candidates tbl))"
  unfolding stale_candidates_def
proof (rule distinct_map_filter_keys[where q = "\<lambda>k. k"])
  show "distinct (map fst (group_by (\<lambda>(c, d). row_key c) (stale_join tbl)))"
    by (rule group_by_keys_distinct)
  show "\<And>k g t. (k, g) \<in> set (group_by (\<lambda>(c, d). row_key c) (stale_join tbl)) \<Longrightarrow>
      stale_select (k, g) = Some t \<Longrightarrow> fst t = k"
    by (auto simp: stale_select_def split: list.splits option.splits if_splits)
  show "inj_on (\<lambda>k. k) (fst ` set (group_by (\<lambda>(c, d). row_key c) (stale_join tbl)))"
    by simp
qed

lemma mset_order_by_rand: "mset (order_by_rand rnd xs) = mset xs"
proof -
  let ?zs = "zip (map rnd [0..<length xs]) xs"
  have "mset (order_by_rand rnd xs) = mset (map snd (sort_key fst ?zs))"
    by (simp only: order_by_rand_def)
  also have "\<dots> = image_mset snd (mset (sort_key fst ?zs))" by (simp only: mset_map)
  also have "\<dots> = image_mset snd (mset ?zs)" by (simp only: mset_sort)
  also have "\<dots> = mset (map snd ?zs)" by (simp only: mset_map)
  also have "map snd ?zs = xs" by (simp add: map_snd_zip)
  finally show ?thesis .
qed

lemma set_order_by_rand: "set (order_by_rand rnd xs) = set xs"
  using mset_order_by_rand[of rnd xs] by (metis set_mset_mset)

lemma length_order_by_rand: "length (order_by_rand rnd xs) = length xs"
  using mset_order_by_rand[of rnd xs] by (metis size_mset)

lemma stale_result_subset:
  "set (get_rows_with_stale_direction rnd tbl) \<subseteq> set (stale_candidates tbl)"
  unfolding get_rows_with_stale_direction_def
  using set_take_subset[of 10000 "order_by_rand rnd (stale_candidates tbl)"]
  by (simp add: set_order_by_rand)

lemma stale_result_all:
  "length (stale_candidates tbl) \<le> 10000 \<Longrightarrow>
   set (get_rows_with_stale_direction rnd tbl) = set (stale_candidates tbl)"
  unfolding get_rows_with_stale_direction_def
  by (simp add: set_order_by_rand length_order_by_rand)

lemma stale_result_length:
  "length (get_rows_with_stale_direction rnd tbl) = min 10000 (length (stale_candidates tbl))"
  unfolding get_rows_with_stale_direction_def
  by (simp add: length_order_by_rand min.commute)

lemma fst_stale_tuple: "fst (stale_tuple tbl c) = row_key c"
  by (simp add: stale_tuple_def)

lemma stale_candidates_length:
  assumes "unique_keys tbl"
  shows "length (stale_candidates tbl) = length (stale_rows tbl)"
proof -
  have s: "set (stale_candidates tbl) = stale_tuple tbl ` set (stale_rows tbl)"
  proof (intro set_eqI iffI)
    fix r assume "r \<in> set (stale_candidates tbl)"
    then obtain c where "c \<in> set tbl" "time_type c = ''day''" "stale_by_window tbl c"
      "r = stale_tuple tbl c"
      using stale_candidates_mem[OF assms, of r] by blast
    then show "r \<in> stale_tuple tbl ` set (stale_rows tbl)" by (simp add: stale_rows_def)
  next
    fix r assume "r \<in> stale_tuple tbl ` set (stale_rows tbl)"
    then obtain c where "c \<in> set tbl" "time_type c = ''day''" "stale_by_window tbl c"
      "r = stale_tuple tbl c"
      by (auto simp: stale_rows_def)
    then show "r \<in> set (stale_candidates tbl)"
      using stale_candidates_mem[OF assms, of r] by blast
  qed
  have d1: "distinct (stale_candidates tbl)"
    using stale_candidates_distinct[of tbl] by (simp add: distinct_map)
  have d2: "distinct (stale_rows tbl)"
    unfolding stale_rows_def using unique_keys_distinct[OF assms] by simp
  have inj: "inj_on (stale_tuple tbl) (set (stale_rows tbl))"
  proof (rule inj_onI)
    fix x y
    assume x: "x \<in> set (stale_rows tbl)" and y: "y \<in> set (stale_rows tbl)"
      and e: "stale_tuple tbl x = stale_tuple tbl y"
    from e have "row_key x = row_key y" by (metis fst_stale_tuple)
    moreover from x y have "x \<in> set tbl" "y \<in> set tbl" by (simp_all add: stale_rows_def)
    ultimately show "x = y" using unique_keys_inj[OF assms] by (meson inj_onD)
  qed
  have "length (stale_candidates tbl) = card (set (stale_candidates tbl))"
    using d1 by (simp add: distinct_card)
  also have "\<dots> = card (set (stale_rows tbl))"
    unfolding s using inj by (rule card_image)
  also have "\<dots> = length (stale_rows tbl)"
    using d2 by (simp add: distinct_card)
  finally show ?thesis .
qed

lemma appears_candidates:
  assumes "unique_keys tbl" and "c \<in> set tbl"
  shows "appears c (stale_candidates tbl) \<longleftrightarrow> time_type c = ''day'' \<and> stale_by_window tbl c"
proof
  assume "appears c (stale_candidates tbl)"
  then obtain r where r: "r \<in> set (stale_candidates tbl)" "fst r = row_key c"
    by (auto simp: appears_def)
  then obtain c' where c': "c' \<in> set tbl" "time_type c' = ''day''" "stale_by_window tbl c'"
    "r = stale_tuple tbl c'"
    using stale_candidates_mem[OF assms(1)] by blast
  with r(2) have "row_key c' = row_key c" by (simp add: fst_stale_tuple)
  with c'(1) assms(2) have "c' = c" using unique_keys_inj[OF assms(1)] by (meson inj_onD)
  with c' show "time_type c = ''day'' \<and> stale_by_window tbl c" by simp
next
  assume "time_type c = ''day'' \<and> stale_by_window tbl c"
  with assms(2) have "stale_tuple tbl c \<in> set (stale_candidates tbl)"
    using stale_candidates_mem[OF assms(1)] by blast
  then show "appears c (stale_candidates tbl)"
    unfolding appears_def using fst_stale_tuple[of tbl c] by force
qed

lemma appears_mono: "set res \<subseteq> set res' \<Longrightarrow> appears c res \<Longrightarrow> appears c res'"
  by (auto simp: appears_def)

lemma stale_by_window_iff:
  "stale_by_window tbl c \<longleftrightarrow> (\<exists>d\<in>set (window_rows tbl c). timestamp2 c < timestamp1 d)"
proof (cases "window_rows tbl c = []")
  case True
  then show ?thesis by (simp add: stale_by_window_def)
next
  case False
  then have ne: "set (map timestamp1 (window_rows tbl c)) \<noteq> {}" by simp
  have "timestamp2 c < Max (set (map timestamp1 (window_rows tbl c))) \<longleftrightarrow>
        (\<exists>x\<in>set (map timestamp1 (window_rows tbl c)). timestamp2 c < x)"
    using ne by (subst Max_gr_iff) auto
  also have "\<dots> \<longleftrightarrow> (\<exists>d\<in>set (window_rows tbl c). timestamp2 c < timestamp1 d)" by auto
  finally show ?thesis using False by (simp add: stale_by_window_def)
qed

lemma DATEDIFF_self: "is_date t \<Longrightarrow> DATEDIFF t t = Some 0"
  by (simp add: DATEDIFF_def)

lemma self_in_window:
  "c \<in> set tbl \<Longrightarrow> is_date (time_value c) \<Longrightarrow> c \<in> set (window_rows tbl c)"
  by (simp add: window_rows_def same_series_def DATEDIFF_self between_def)

lemma DATEDIFF_Some_is_date: "DATEDIFF a b = Some k \<Longrightarrow> is_date a"
  by (simp add: DATEDIFF_def split: if_splits)

lemma support_positive:
  "r \<in> set (stale_candidates tbl) \<Longrightarrow> 1 \<le> snd (snd (snd r))"
proof -
  assume "r \<in> set (stale_candidates tbl)"
  then obtain k g where "stale_select (k, g) = Some r"
    unfolding stale_candidates_def map_filter_set by auto
  then show ?thesis
    by (cases g) (auto simp: stale_select_def split: option.splits if_splits)
qed

lemma is_date_20200418: "is_date 20200418"
  by (simp add: is_date_def days_in_month_def leap_year_def)

lemma is_date_20200419: "is_date 20200419"
  by (simp add: is_date_def days_in_month_def leap_year_def)

lemma DATEDIFF_19_18: "DATEDIFF 20200419 20200418 = Some 1"
  by (simp add: DATEDIFF_def is_date_20200418 is_date_20200419 day_number_def)

lemma DATEDIFF_18_19: "DATEDIFF 20200418 20200419 = Some (- 1)"
  by (simp add: DATEDIFF_def is_date_20200418 is_date_20200419 day_number_def)

lemma example_unique: "unique_keys [fresh_row, stale_row, other_row]"
  by (simp add: unique_keys_def row_key_def fresh_row_def stale_row_def other_row_def day_row_def)

lemma window_stale_row: "window_rows [fresh_row, stale_row, other_row] stale_row = [stale_row]"
  by (simp add: window_rows_def same_series_def fresh_row_def stale_row_def other_row_def
      day_row_def DATEDIFF_self is_date_20200418 DATEDIFF_18_19 between_def)

lemma window_fresh_row:
  "window_rows [fresh_row, stale_row, other_row] fresh_row = [fresh_row, stale_row]"
  by (simp add: window_rows_def same_series_def fresh_row_def stale_row_def other_row_def
      day_row_def DATEDIFF_self is_date_20200419 DATEDIFF_19_18 between_def)

lemma window_other_row: "window_rows [fresh_row, stale_row, other_row] other_row = [other_row]"
  by (simp add: window_rows_def same_series_def fresh_row_def stale_row_def other_row_def
      day_row_def DATEDIFF_self is_date_20200419 between_def)

lemma stale_rows_le: "length (stale_rows tbl) \<le> length tbl"
  by (simp add: stale_rows_def)

lemma lone_row_key_inj: "row_key (lone_row i) = row_key (lone_row j) \<Longrightarrow> i = j"
proof -
  assume "row_key (lone_row i) = row_key (lone_row j)"
  then have "replicate i (CHR ''0'') = replicate j (CHR ''0'')"
    by (simp add: row_key_def lone_row_def day_row_def)
  then have "length (replicate i (CHR ''0'')) = length (replicate j (CHR ''0''))" by simp
  then show "i = j" by simp
qed

lemma lone_table_unique: "unique_keys (lone_table n)"
  unfolding unique_keys_def lone_table_def
  by (simp add: distinct_map comp_def inj_on_def) (metis lone_row_key_inj)

lemma lone_table_length: "length (lone_table n) = n"
  by (simp add: lone_table_def)

lemma lone_row_stale:
  assumes "c \<in> set (lone_table n)"
  shows "time_type c = ''day'' \<and> timestamp2 c < timestamp1 c \<and> stale_by_window (lone_table n) c"
proof -
  from assms obtain i where c: "c = lone_row i" by (auto simp: lone_table_def)
  have d: "time_type c = ''day''" and t: "timestamp2 c < timestamp1 c"
    and i: "is_date (time_value c)"
    unfolding c by (simp_all add: lone_row_def day_row_def is_date_20200419)
  from assms i have "c \<in> set (window_rows (lone_table n) c)" by (rule self_in_window)
  with t have "stale_by_window (lone_table n) c" unfolding stale_by_window_iff by blast
  with d t show ?thesis by simp
qed

lemma lone_table_stale_rows: "stale_rows (lone_table n) = lone_table n"
  unfolding stale_rows_def using lone_row_stale[of _ n] by (simp add: filter_id_conv)

lemma lone_table_not_all_appear:
  "\<not> (\<forall>c\<in>set (lone_table 10001). appears c (get_rows_with_stale_direction rnd (lone_table 10001)))"
proof
  let ?tbl = "lone_table 10001"
  let ?res = "get_rows_with_stale_direction rnd ?tbl"
  assume all: "\<forall>c\<in>set ?tbl. appears c ?res"
  then have sub: "row_key ` set ?tbl \<subseteq> fst ` set ?res" by (auto simp: appears_def)
  have "card (row_key ` set ?tbl) = length (map row_key ?tbl)"
    using lone_table_unique[of 10001] unfolding unique_keys_def
    by (metis distinct_card set_map)
  then have c1: "card (row_key ` set ?tbl) = 10001" by (simp add: lone_table_length)
  have "card (fst ` set ?res) \<le> card (set ?res)" by (rule card_image_le) simp
  also have "\<dots> \<le> length ?res" by (rule card_length)
  also have "\<dots> \<le> 10000" by (simp add: get_rows_with_stale_direction_def)
  finally have c2: "card (fst ` set ?res) \<le> 10000" .
  have "card (row_key ` set ?tbl) \<le> card (fst ` set ?res)"
    by (rule card_mono[OF _ sub]) simp
  with c1 c2 show False by simp
qed

text \<open>
  C1 (as the code has it). For a daily row \<open>c\<close> of a table with unique keys: \<open>c\<close> appears in
  the result of \<open>get_rows_with_stale_direction\<close> only if it is stale by the window (some row
  of its series lies 0 to 6 days before it, and the largest \<open>timestamp1\<close> of those rows is
  greater than \<open>c.timestamp2\<close>); the result holds 10000 tuples or as many as there are
  stale daily rows, whichever is less, so that when at most 10000 rows are stale, \<open>c\<close>
  appears if and only if it is stale. The tuple of \<open>c\<close> carries its key, \<open>c.timestamp2\<close>, that
  largest \<open>timestamp1\<close> and the number of rows in the window. A row with
  \<open>timestamp1 > timestamp2\<close> and a row of its series within 6 days is stale; a row whose
  \<open>timestamp2\<close> is at least the \<open>timestamp1\<close> of every row of its window does not appear.
\<close>

theorem stale_rows_sampled:
  assumes "unique_keys tbl" and "c \<in> set tbl" and "time_type c = ''day''"
  shows "(appears c (get_rows_with_stale_direction rnd tbl) \<longrightarrow> stale_by_window tbl c) \<and>
    (length (stale_rows tbl) \<le> 10000 \<longrightarrow>
       (appears c (get_rows_with_stale_direction rnd tbl) \<longleftrightarrow> stale_by_window tbl c)) \<and>
    length (get_rows_with_stale_direction rnd tbl) = min 10000 (length (stale_rows tbl)) \<and>
    (\<forall>r\<in>set (get_rows_with_stale_direction rnd tbl).
       fst r = row_key c \<longrightarrow> r = stale_tuple tbl c) \<and>
    (timestamp2 c < timestamp1 c \<and>
     (\<exists>d\<in>set tbl. same_series c d \<and>
        (\<exists>k. DATEDIFF (time_value c) (time_value d) = Some k \<and> \<bar>k\<bar> \<le> 6)) \<longrightarrow>
       stale_by_window tbl c) \<and>
    ((\<forall>d\<in>set (window_rows tbl c). timestamp1 d \<le> timestamp2 c) \<longrightarrow>
       \<not> appears c (get_rows_with_stale_direction rnd tbl))"
proof -
  let ?res = "get_rows_with_stale_direction rnd tbl"
  have sound: "appears c ?res \<longrightarrow> stale_by_window tbl c"
  proof
    assume "appears c ?res"
    then have "appears c (stale_candidates tbl)"
      using stale_result_subset[of rnd tbl] by (rule appears_mono[rotated])
    then show "stale_by_window tbl c"
      using appears_candidates[OF assms(1,2)] by simp
  qed
  have complete: "length (stale_rows tbl) \<le> 10000 \<longrightarrow>
       (appears c ?res \<longleftrightarrow> stale_by_window tbl c)"
  proof
    assume "length (stale_rows tbl) \<le> 10000"
    then have "length (stale_candidates tbl) \<le> 10000"
      by (simp add: stale_candidates_length[OF assms(1)])
    then have "set ?res = set (stale_candidates tbl)" by (rule stale_result_all)
    then have "appears c ?res \<longleftrightarrow> appears c (stale_candidates tbl)"
      by (simp add: appears_def)
    then show "appears c ?res \<longleftrightarrow> stale_by_window tbl c"
      using appears_candidates[OF assms(1,2)] assms(3) by simp
  qed
  have len: "length ?res = min 10000 (length (stale_rows tbl))"
    by (simp only: stale_result_length stale_candidates_length[OF assms(1)])
  have tuple: "\<forall>r\<in>set ?res. fst r = row_key c \<longrightarrow> r = stale_tuple tbl c"
  proof (intro ballI impI)
    fix r assume "r \<in> set ?res" and k: "fst r = row_key c"
    then have "r \<in> set (stale_candidates tbl)" using stale_result_subset[of rnd tbl] by blast
    then obtain c' where c': "c' \<in> set tbl" "r = stale_tuple tbl c'"
      using stale_candidates_mem[OF assms(1), of r] by blast
    with k have "row_key c' = row_key c" by (simp add: fst_stale_tuple)
    with c'(1) assms(2) have "c' = c" using unique_keys_inj[OF assms(1)] by (meson inj_onD)
    with c'(2) show "r = stale_tuple tbl c" by simp
  qed
  have own: "timestamp2 c < timestamp1 c \<and>
     (\<exists>d\<in>set tbl. same_series c d \<and>
        (\<exists>k. DATEDIFF (time_value c) (time_value d) = Some k \<and> \<bar>k\<bar> \<le> 6)) \<longrightarrow>
       stale_by_window tbl c"
  proof
    assume h: "timestamp2 c < timestamp1 c \<and>
     (\<exists>d\<in>set tbl. same_series c d \<and>
        (\<exists>k. DATEDIFF (time_value c) (time_value d) = Some k \<and> \<bar>k\<bar> \<le> 6))"
    then obtain d :: row and k where "DATEDIFF (time_value c) (time_value d) = Some k" by blast
    then have "is_date (time_value c)" by (rule DATEDIFF_Some_is_date)
    then have "c \<in> set (window_rows tbl c)" using assms(2) by (simp add: self_in_window)
    with h show "stale_by_window tbl c" unfolding stale_by_window_iff by blast
  qed
  have fresh: "(\<forall>d\<in>set (window_rows tbl c). timestamp1 d \<le> timestamp2 c) \<longrightarrow>
       \<not> appears c ?res"
  proof
    assume "\<forall>d\<in>set (window_rows tbl c). timestamp1 d \<le> timestamp2 c"
    then have "\<not> stale_by_window tbl c" unfolding stale_by_window_iff by force
    with sound show "\<not> appears c ?res" by blast
  qed
  show ?thesis
    by (rule conjI[OF sound conjI[OF complete conjI[OF len conjI[OF tuple conjI[OF own fresh]]]]])
qed

theorem stale_rows_sampled_witness:
  "unique_keys [fresh_row, stale_row, other_row] \<and>
   time_type stale_row = ''day'' \<and> time_type fresh_row = ''day'' \<and>
   stale_by_window [fresh_row, stale_row, other_row] stale_row \<and>
   appears stale_row (get_rows_with_stale_direction (\<lambda>i. 0) [fresh_row, stale_row, other_row]) \<and>
   \<not> stale_by_window [fresh_row, stale_row, other_row] fresh_row \<and>
   \<not> appears fresh_row (get_rows_with_stale_direction (\<lambda>i. 0) [fresh_row, stale_row, other_row])"
proof -
  let ?tbl = "[fresh_row, stale_row, other_row]"
  let ?res = "get_rows_with_stale_direction (\<lambda>i. 0) ?tbl"
  have u: "unique_keys ?tbl" by (rule example_unique)
  have ds: "time_type stale_row = ''day''" by (simp add: stale_row_def day_row_def)
  have df: "time_type fresh_row = ''day''" by (simp add: fresh_row_def day_row_def)
  have ms: "stale_row \<in> set ?tbl" and mf: "fresh_row \<in> set ?tbl" by simp_all
  have le: "length (stale_rows ?tbl) \<le> 10000"
    using stale_rows_le[of ?tbl] by simp
  have ss: "stale_by_window ?tbl stale_row"
    by (simp add: stale_by_window_def window_stale_row) (simp add: stale_row_def day_row_def)
  have sf: "\<not> stale_by_window ?tbl fresh_row"
    by (simp add: stale_by_window_def window_fresh_row)
       (simp add: fresh_row_def stale_row_def day_row_def)
  from stale_rows_sampled[OF u ms ds, of "\<lambda>i. 0"] le ss
  have a1: "appears stale_row ?res" by blast
  from stale_rows_sampled[OF u mf df, of "\<lambda>i. 0"] sf
  have a2: "\<not> appears fresh_row ?res" by blast
  from u ds df ss a1 sf a2 show ?thesis by blast
qed

text \<open>
  C1 as stated says that every stale daily row appears in the result. The statement
  ends with \<open>LIMIT 10000\<close>: of 10001 stale rows, whatever the random order, one is missing.
\<close>

theorem stale_rows_sampled_counterexample:
  "unique_keys (lone_table 10001) \<and>
   length (stale_rows (lone_table 10001)) = 10001 \<and>
   length (get_rows_with_stale_direction (\<lambda>i. 0) (lone_table 10001)) = 10000 \<and>
   \<not> (\<forall>c\<in>set (lone_table 10001).
        appears c (get_rows_with_stale_direction (\<lambda>i. 0) (lone_table 10001)) \<longleftrightarrow>
        stale_by_window (lone_table 10001) c)"
proof -
  let ?tbl = "lone_table 10001"
  let ?res = "get_rows_with_stale_direction (\<lambda>i. 0) ?tbl"
  have u: "unique_keys ?tbl" by (rule lone_table_unique)
  have n: "length (stale_rows ?tbl) = 10001"
    by (simp add: lone_table_stale_rows lone_table_length)
  have l: "length ?res = 10000"
    by (simp add: stale_result_length stale_candidates_length[OF u] n)
  have "\<not> (\<forall>c\<in>set ?tbl. appears c ?res \<longleftrightarrow> stale_by_window ?tbl c)"
  proof
    assume "\<forall>c\<in>set ?tbl. appears c ?res \<longleftrightarrow> stale_by_window ?tbl c"
    then have "\<forall>c\<in>set ?tbl. appears c ?res" using lone_row_stale[of _ 10001] by blast
    with lone_table_not_all_appear[of "\<lambda>i. 0"] show False by blast
  qed
  with u n l show ?thesis by blast
qed

text \<open>
  C10 (as the code has it). Every tuple of the result of \<open>get_rows_with_stale_direction\<close>
  has \<open>support\<close> at least 1. A row whose \<open>time_value\<close> is a date joins with itself (offset 0
  lies in the window); when it is a daily row with \<open>timestamp1 > timestamp2\<close> it is stale
  and passes \<open>HAVING\<close>, whether or not another row of its series lies in the window, and
  it is in the result when at most 10000 rows of the table are stale.
\<close>

theorem stale_self_join:
  "(\<forall>r\<in>set (get_rows_with_stale_direction rnd tbl). 1 \<le> support r) \<and>
   (c \<in> set tbl \<and> is_date (time_value c) \<longrightarrow> c \<in> set (window_rows tbl c)) \<and>
   (unique_keys tbl \<and> c \<in> set tbl \<and> time_type c = ''day'' \<and> is_date (time_value c) \<and>
    timestamp2 c < timestamp1 c \<longrightarrow>
      stale_by_window tbl c \<and> appears c (stale_candidates tbl) \<and>
      (length (stale_rows tbl) \<le> 10000 \<longrightarrow>
         appears c (get_rows_with_stale_direction rnd tbl)))"
proof -
  let ?res = "get_rows_with_stale_direction rnd tbl"
  have sup: "\<forall>r\<in>set ?res. 1 \<le> support r"
  proof
    fix r assume "r \<in> set ?res"
    then have "r \<in> set (stale_candidates tbl)" using stale_result_subset[of rnd tbl] by blast
    then have "1 \<le> snd (snd (snd r))" by (rule support_positive)
    then show "1 \<le> support r" by (simp add: support_def)
  qed
  have self: "c \<in> set tbl \<and> is_date (time_value c) \<longrightarrow> c \<in> set (window_rows tbl c)"
    by (simp add: self_in_window)
  have own: "unique_keys tbl \<and> c \<in> set tbl \<and> time_type c = ''day'' \<and> is_date (time_value c) \<and>
    timestamp2 c < timestamp1 c \<longrightarrow>
      stale_by_window tbl c \<and> appears c (stale_candidates tbl) \<and>
      (length (stale_rows tbl) \<le> 10000 \<longrightarrow> appears c ?res)"
  proof
    assume h: "unique_keys tbl \<and> c \<in> set tbl \<and> time_type c = ''day'' \<and>
      is_date (time_value c) \<and> timestamp2 c < timestamp1 c"
    then have u: "unique_keys tbl" and c: "c \<in> set tbl" and d: "time_type c = ''day''" by simp_all
    from h have "c \<in> set (window_rows tbl c)" by (simp add: self_in_window)
    with h have st: "stale_by_window tbl c" unfolding stale_by_window_iff by blast
    with d have ac: "appears c (stale_candidates tbl)"
      using appears_candidates[OF u c] by simp
    have "length (stale_rows tbl) \<le> 10000 \<longrightarrow> appears c ?res"
    proof
      assume "length (stale_rows tbl) \<le> 10000"
      then have "length (stale_candidates tbl) \<le> 10000"
        by (simp add: stale_candidates_length[OF u])
      then have "set ?res = set (stale_candidates tbl)" by (rule stale_result_all)
      with ac show "appears c ?res" by (simp add: appears_def)
    qed
    with st ac show "stale_by_window tbl c \<and> appears c (stale_candidates tbl) \<and>
      (length (stale_rows tbl) \<le> 10000 \<longrightarrow> appears c ?res)" by blast
  qed
  show ?thesis by (rule conjI[OF sup conjI[OF self own]])
qed

theorem stale_self_join_witness:
  "unique_keys [fresh_row, stale_row, other_row] \<and>
   time_type other_row = ''day'' \<and> is_date (time_value other_row) \<and>
   timestamp2 other_row < timestamp1 other_row \<and>
   window_rows [fresh_row, stale_row, other_row] other_row = [other_row] \<and>
   appears other_row (get_rows_with_stale_direction (\<lambda>i. 0) [fresh_row, stale_row, other_row])"
proof -
  let ?tbl = "[fresh_row, stale_row, other_row]"
  let ?res = "get_rows_with_stale_direction (\<lambda>i. 0) ?tbl"
  have u: "unique_keys ?tbl" by (rule example_unique)
  have d: "time_type other_row = ''day''" by (simp add: other_row_def day_row_def)
  have m: "other_row \<in> set ?tbl" by simp
  have i: "is_date (time_value other_row)"
    by (simp add: other_row_def day_row_def is_date_20200419)
  have t: "timestamp2 other_row < timestamp1 other_row"
    by (simp add: other_row_def day_row_def)
  have le: "length (stale_rows ?tbl) \<le> 10000"
    using stale_rows_le[of ?tbl] by simp
  from stale_self_join[of "\<lambda>i. 0" ?tbl other_row] u m d i t le
  have a: "appears other_row ?res" by blast
  from u d i t window_other_row a show ?thesis by blast
qed

text \<open>
  C10 as stated says that every daily row with \<open>timestamp1 > timestamp2\<close> is reported. Of
  10001 such rows, each alone in its series, \<open>LIMIT 10000\<close> leaves one out.
\<close>

theorem stale_self_join_counterexample:
  "\<not> (\<forall>c\<in>set (lone_table 10001).
        time_type c = ''day'' \<and> timestamp2 c < timestamp1 c \<longrightarrow>
        appears c (get_rows_with_stale_direction (\<lambda>i. 0) (lone_table 10001)))"
proof
  let ?tbl = "lone_table 10001"
  let ?res = "get_rows_with_stale_direction (\<lambda>i. 0) ?tbl"
  assume "\<forall>c\<in>set ?tbl. time_type c = ''day'' \<and> timestamp2 c < timestamp1 c \<longrightarrow> appears c ?res"
  then have "\<forall>c\<in>set ?tbl. appears c ?res" using lone_row_stale[of _ 10001] by blast
  with lone_table_not_all_appear[of "\<lambda>i. 0"] show False by blast
qed

section \<open>Properties of the driver and the ingest step\<close>

lemma disconnect_closed:
  "\<not> connection_open (disconnect commit c)" "\<not> cursor_open (disconnect commit c)"
  by (simp_all add: disconnect_def Let_def)

lemma pending_connect: "pending (connect db) = db"
  by (simp add: connect_def)

text \<open>
  C7. \<open>main\<close> connects and runs the ingest step. When the step raises, \<open>main\<close> disconnects
  with \<open>commit = False\<close> and the exception leaves \<open>main\<close>: the committed table is the one
  before the run, whatever the step had written. When the step returns and test mode is
  off, \<open>main\<close> disconnects with \<open>commit = True\<close>: the committed table is the one the step
  left. In test mode \<open>main\<close> disconnects with \<open>commit = False\<close> whatever the outcome. In every
  case the cursor and the connection are closed.
\<close>

theorem main_commit_or_rollback:
  "(scan db = (Some e, t) \<longrightarrow>
      main test scan db = (Some e, disconnect False ((connect db)\<lparr>pending := t\<rparr>)) \<and>
      committed (snd (main test scan db)) = db) \<and>
   (scan db = (None, t) \<and> \<not> test \<longrightarrow>
      main test scan db = (None, disconnect True ((connect db)\<lparr>pending := t\<rparr>)) \<and>
      committed (snd (main test scan db)) = t) \<and>
   (scan db = (raised, t) \<and> test \<longrightarrow>
      main test scan db = (raised, disconnect False ((connect db)\<lparr>pending := t\<rparr>)) \<and>
      committed (snd (main test scan db)) = db) \<and>
   \<not> connection_open (snd (main test scan db)) \<and> \<not> cursor_open (snd (main test scan db))"
proof -
  have a: "scan db = (Some e, t) \<longrightarrow>
      main test scan db = (Some e, disconnect False ((connect db)\<lparr>pending := t\<rparr>)) \<and>
      committed (snd (main test scan db)) = db"
    by (simp add: main_def connect_def disconnect_def)
  have b: "scan db = (None, t) \<and> \<not> test \<longrightarrow>
      main test scan db = (None, disconnect True ((connect db)\<lparr>pending := t\<rparr>)) \<and>
      committed (snd (main test scan db)) = t"
    by (simp add: main_def connect_def disconnect_def)
  have c: "scan db = (raised, t) \<and> test \<longrightarrow>
      main test scan db = (raised, disconnect False ((connect db)\<lparr>pending := t\<rparr>)) \<and>
      committed (snd (main test scan db)) = db"
    by (cases raised) (simp_all add: main_def connect_def disconnect_def)
  have d: "\<not> connection_open (snd (main test scan db)) \<and> \<not> cursor_open (snd (main test scan db))"
    by (cases "scan db"; cases "fst (scan db)")
       (simp_all add: main_def Let_def pending_connect disconnect_closed)
  show ?thesis by (rule conjI[OF a conjI[OF b conjI[OF c d]]])
qed

theorem main_commit_or_rollback_witness:
  "fst (main False failing_ingest [fresh_row]) = Some ''testing'' \<and>
   committed (snd (main False failing_ingest [fresh_row])) = [fresh_row] \<and>
   committed (snd (main False example_ingest [fresh_row])) =
     [fresh_row, (day_row ''01001'' 20200420 200 0)\<lparr>val := 2\<rparr>] \<and>
   committed (snd (main True example_ingest [fresh_row])) = [fresh_row] \<and>
   committed (snd (main True failing_ingest [fresh_row])) = [fresh_row]"
proof -
  let ?new = "insert_or_update 200 ''src'' ''sig'' ''day'' ''county'' 20200420 ''01001'' 2 None None
                [fresh_row]"
  have n: "?new = [fresh_row, (day_row ''01001'' 20200420 200 0)\<lparr>val := 2\<rparr>]"
    by (simp add: insert_or_update_def row_key_def fresh_row_def day_row_def)
  have f: "failing_ingest [fresh_row] = (Some ''testing'', ?new)"
    by (simp add: failing_ingest_def)
  have g: "example_ingest [fresh_row] = (None, ?new)"
    by (simp add: example_ingest_def)
  from main_commit_or_rollback[of failing_ingest "[fresh_row]" "''testing''" ?new False "Some ''testing''"] f
  have m: "main False failing_ingest [fresh_row] =
      (Some ''testing'', disconnect False ((connect [fresh_row])\<lparr>pending := ?new\<rparr>))"
    and 2: "committed (snd (main False failing_ingest [fresh_row])) = [fresh_row]"
    by blast+
  have 1: "fst (main False failing_ingest [fresh_row]) = Some ''testing''"
    by (simp only: m fst_conv)
  from main_commit_or_rollback[of example_ingest "[fresh_row]" "''x''" ?new False None] g
  have 3: "committed (snd (main False example_ingest [fresh_row])) = ?new"
    by blast
  from main_commit_or_rollback[of example_ingest "[fresh_row]" "''x''" ?new True None] g
  have 4: "committed (snd (main True example_ingest [fresh_row])) = [fresh_row]"
    by blast
  from main_commit_or_rollback[of failing_ingest "[fresh_row]" "''testing''" ?new True "Some ''testing''"] f
  have 5: "committed (snd (main True failing_ingest [fresh_row])) = [fresh_row]"
    by blast
  show ?thesis unfolding n[symmetric] using 1 2 3 4 5 by blast
qed

lemma split_a: "path_split ''path/a.csv'' = (''path'', ''a.csv'')"
  by (simp add: path_split_def)

lemma split_b: "path_split ''path/b.csv'' = (''path'', ''b.csv'')"
  by (simp add: path_split_def)

lemma split_c: "path_split ''path/c.csv'' = (''path'', ''c.csv'')"
  by (simp add: path_split_def)

lemma join_dirs:
  "path_join (path_join (path_join ''data_dir'' ''archive'') ''successful'') ''src_a'' =
     ''data_dir/archive/successful/src_a''"
  "path_join (path_join (path_join ''data_dir'' ''archive'') ''failed'') ''src_b'' =
     ''data_dir/archive/failed/src_b''"
  "path_join (path_join (path_join ''data_dir'' ''archive'') ''failed'') ''unknown'' =
     ''data_dir/archive/failed/unknown''"
  by (simp_all add: path_join_def)

lemma valid_rows_simps:
  "valid_rows [] = []"
  "valid_rows (None # rows) = valid_rows rows"
  "valid_rows (Some rv # rows) = rv # valid_rows rows"
  by (simp_all add: valid_rows_def List.map_filter_def)

lemma upload_rows_total:
  "upload_rows (\<lambda>call d. Inr (ups call d)) det rows ok db =
     (None, ok \<and> None \<notin> set rows, fold ups (map (call_of det) (valid_rows rows)) db)"
proof (induction rows arbitrary: ok db)
  case Nil
  then show ?case by (simp add: valid_rows_simps)
next
  case (Cons r rows)
  show ?case
  proof (cases r)
    case None
    then show ?thesis using Cons.IH[of False db] by (simp add: valid_rows_simps)
  next
    case (Some rv)
    obtain s g tt gt tv where det: "det = (s, g, tt, gt, tv)" by (cases det)
    show ?thesis unfolding Some
      using Cons.IH[of ok "ups (call_of det rv) db"]
      by (simp add: valid_rows_simps det call_of_def)
  qed
qed

lemma scan_files_total:
  "scan_files data_dir load_csv (\<lambda>call d. Inr (ups call d)) files db archived =
     (None, fold ups (concat (map (file_calls load_csv) files)) db,
      archived @ map (file_archive data_dir load_csv) files)"
proof (induction files arbitrary: db archived)
  case Nil
  then show ?case by simp
next
  case (Cons f files)
  obtain path details where f: "f = (path, details)" by (cases f)
  obtain path_src filename where sp: "path_split path = (path_src, filename)"
    by (cases "path_split path")
  show ?case
  proof (cases details)
    case None
    show ?thesis unfolding f None
      using Cons.IH[of db "archived @ [(path_src, archive_dir data_dir ''failed'' ''unknown'',
          filename, False)]"]
      by (simp add: sp file_calls_def file_archive_def archive_dir_def)
  next
    case (Some det)
    obtain s g tt gt tv where det: "det = (s, g, tt, gt, tv)" by (cases det)
    let ?rows = "load_csv path gt"
    let ?db' = "fold ups (map (call_of det) (valid_rows ?rows)) db"
    let ?a = "if None \<notin> set ?rows
              then (path_src, archive_dir data_dir ''successful'' s, filename, True)
              else (path_src, archive_dir data_dir ''failed'' s, filename, False)"
    have step: "scan_files data_dir load_csv (\<lambda>call d. Inr (ups call d)) (f # files) db archived =
        scan_files data_dir load_csv (\<lambda>call d. Inr (ups call d)) files ?db' (archived @ [?a])"
      unfolding f Some det
      by (simp add: upload_rows_total sp archive_dir_def)
    have fc: "file_calls load_csv f = map (call_of det) (valid_rows ?rows)"
      by (simp add: f Some det file_calls_def file_rows_def)
    have fa: "file_archive data_dir load_csv f = ?a"
      by (simp add: f Some det file_archive_def file_rows_def sp)
    show ?thesis unfolding step Cons.IH[of ?db' "archived @ [?a]"]
      by (simp add: fc fa)
  qed
qed

lemma valid_rows_all: "None \<notin> set rows \<Longrightarrow> length (valid_rows rows) = length rows"
proof (induction rows)
  case Nil
  then show ?case by (simp add: valid_rows_simps)
next
  case (Cons r rows)
  then show ?case by (cases r) (simp_all add: valid_rows_simps)
qed

lemma one_invalid:
  "length rows = 3 \<Longrightarrow> length (valid_rows rows) = 2 \<Longrightarrow> None \<in> set rows"
  using valid_rows_all[of rows] by auto

lemma fold_record: "fold (\<lambda>call d. d @ [call]) calls d = d @ calls"
  by (induction calls arbitrary: d) simp_all

lemma record_call_total: "record_call = (\<lambda>call d. Inr (d @ [call]))"
  by (intro ext) (simp add: record_call_def)

text \<open>
  C8. With a database whose \<open>insert_or_update\<close> does not raise, \<open>scan_upload_archive\<close>
  returns normally, has called \<open>insert_or_update\<close> for the valid rows of the parsed files
  in order, and has called the archiver once for every file. Hence for any file of 3
  valid rows, any file of 3 rows of which one, at any position, is invalid, and any
  file whose name was not parsed: exactly 5 calls of \<open>insert_or_update\<close> occur, for the 3
  rows of the first file and the 2 valid rows of the second (the rows before and after
  the invalid one); the first file is archived under \<open>successful/<its source>\<close>, the
  second under \<open>failed/<its source>\<close> and the third under \<open>failed/unknown\<close>. The count and
  the archive calls are the same in whatever order the three files come.
\<close>

theorem scan_upload_archive_files:
  "scan_upload_archive data_dir files load_csv (\<lambda>call d. Inr (ups call d)) db =
     (None, fold ups (concat (map (file_calls load_csv) files)) db,
      map (file_archive data_dir load_csv) files) \<and>
   (files = [(path_a, Some det_a), (path_b, Some det_b), (path_c, None)] \<and>
    file_rows load_csv path_a det_a = [Some a1, Some a2, Some a3] \<and>
    length (file_rows load_csv path_b det_b) = 3 \<and>
    length (valid_rows (file_rows load_csv path_b det_b)) = 2 \<longrightarrow>
      concat (map (file_calls load_csv) files) =
        map (call_of det_a) [a1, a2, a3] @
        map (call_of det_b) (valid_rows (file_rows load_csv path_b det_b)) \<and>
      length (concat (map (file_calls load_csv) files)) = 5 \<and>
      map (file_archive data_dir load_csv) files =
        [(fst (path_split path_a), archive_dir data_dir ''successful'' (fst det_a),
          snd (path_split path_a), True),
         (fst (path_split path_b), archive_dir data_dir ''failed'' (fst det_b),
          snd (path_split path_b), False),
         (fst (path_split path_c), archive_dir data_dir ''failed'' ''unknown'',
          snd (path_split path_c), False)]) \<and>
   (mset files = {#(path_a, Some det_a), (path_b, Some det_b), (path_c, None)#} \<and>
    file_rows load_csv path_a det_a = [Some a1, Some a2, Some a3] \<and>
    length (file_rows load_csv path_b det_b) = 3 \<and>
    length (valid_rows (file_rows load_csv path_b det_b)) = 2 \<longrightarrow>
      length (concat (map (file_calls load_csv) files)) = 5 \<and>
      mset (map (file_archive data_dir load_csv) files) =
        {#(fst (path_split path_a), archive_dir data_dir ''successful'' (fst det_a),
           snd (path_split path_a), True),
          (fst (path_split path_b), archive_dir data_dir ''failed'' (fst det_b),
           snd (path_split path_b), False),
          (fst (path_split path_c), archive_dir data_dir ''failed'' ''unknown'',
           snd (path_split path_c), False)#})"
proof -
  let ?fa = "(path_a, Some det_a)" and ?fb = "(path_b, Some det_b)"
  let ?fc = "(path_c, None :: details option)"
  let ?rb = "file_rows load_csv path_b det_b"
  have run: "scan_upload_archive data_dir files load_csv (\<lambda>call d. Inr (ups call d)) db =
     (None, fold ups (concat (map (file_calls load_csv) files)) db,
      map (file_archive data_dir load_csv) files)"
    by (simp add: scan_upload_archive_def scan_files_total)
  have per_file:
    "file_calls load_csv ?fa = map (call_of det_a) [a1, a2, a3] \<and>
     file_calls load_csv ?fb = map (call_of det_b) (valid_rows ?rb) \<and>
     file_calls load_csv ?fc = [] \<and>
     file_archive data_dir load_csv ?fa =
       (fst (path_split path_a), archive_dir data_dir ''successful'' (fst det_a),
        snd (path_split path_a), True) \<and>
     file_archive data_dir load_csv ?fb =
       (fst (path_split path_b), archive_dir data_dir ''failed'' (fst det_b),
        snd (path_split path_b), False) \<and>
     file_archive data_dir load_csv ?fc =
       (fst (path_split path_c), archive_dir data_dir ''failed'' ''unknown'',
        snd (path_split path_c), False)"
    if a: "file_rows load_csv path_a det_a = [Some a1, Some a2, Some a3]"
      and b3: "length ?rb = 3" and b2: "length (valid_rows ?rb) = 2"
  proof -
    from b3 b2 have inv: "None \<in> set ?rb" by (rule one_invalid)
    show ?thesis
      using inv by (simp add: file_calls_def file_archive_def a valid_rows_simps)
  qed
  have ordered: "files = [?fa, ?fb, ?fc] \<and>
    file_rows load_csv path_a det_a = [Some a1, Some a2, Some a3] \<and>
    length ?rb = 3 \<and> length (valid_rows ?rb) = 2 \<longrightarrow>
      concat (map (file_calls load_csv) files) =
        map (call_of det_a) [a1, a2, a3] @ map (call_of det_b) (valid_rows ?rb) \<and>
      length (concat (map (file_calls load_csv) files)) = 5 \<and>
      map (file_archive data_dir load_csv) files =
        [(fst (path_split path_a), archive_dir data_dir ''successful'' (fst det_a),
          snd (path_split path_a), True),
         (fst (path_split path_b), archive_dir data_dir ''failed'' (fst det_b),
          snd (path_split path_b), False),
         (fst (path_split path_c), archive_dir data_dir ''failed'' ''unknown'',
          snd (path_split path_c), False)]"
  proof
    assume h: "files = [?fa, ?fb, ?fc] \<and>
      file_rows load_csv path_a det_a = [Some a1, Some a2, Some a3] \<and>
      length ?rb = 3 \<and> length (valid_rows ?rb) = 2"
    then have f: "files = [?fa, ?fb, ?fc]" and b2: "length (valid_rows ?rb) = 2" by simp_all
    from h have pf: "file_calls load_csv ?fa = map (call_of det_a) [a1, a2, a3]"
      "file_calls load_csv ?fb = map (call_of det_b) (valid_rows ?rb)"
      "file_calls load_csv ?fc = []"
      "file_archive data_dir load_csv ?fa =
       (fst (path_split path_a), archive_dir data_dir ''successful'' (fst det_a),
        snd (path_split path_a), True)"
      "file_archive data_dir load_csv ?fb =
       (fst (path_split path_b), archive_dir data_dir ''failed'' (fst det_b),
        snd (path_split path_b), False)"
      "file_archive data_dir load_csv ?fc =
       (fst (path_split path_c), archive_dir data_dir ''failed'' ''unknown'',
        snd (path_split path_c), False)"
      using per_file by blast+
    show "concat (map (file_calls load_csv) files) =
        map (call_of det_a) [a1, a2, a3] @ map (call_of det_b) (valid_rows ?rb) \<and>
      length (concat (map (file_calls load_csv) files)) = 5 \<and>
      map (file_archive data_dir load_csv) files =
        [(fst (path_split path_a), archive_dir data_dir ''successful'' (fst det_a),
          snd (path_split path_a), True),
         (fst (path_split path_b), archive_dir data_dir ''failed'' (fst det_b),
          snd (path_split path_b), False),
         (fst (path_split path_c), archive_dir data_dir ''failed'' ''unknown'',
          snd (path_split path_c), False)]"
      unfolding f by (simp add: pf b2)
  qed
  have any_order: "mset files = {#?fa, ?fb, ?fc#} \<and>
    file_rows load_csv path_a det_a = [Some a1, Some a2, Some a3] \<and>
    length ?rb = 3 \<and> length (valid_rows ?rb) = 2 \<longrightarrow>
      length (concat (map (file_calls load_csv) files)) = 5 \<and>
      mset (map (file_archive data_dir load_csv) files) =
        {#(fst (path_split path_a), archive_dir data_dir ''successful'' (fst det_a),
           snd (path_split path_a), True),
          (fst (path_split path_b), archive_dir data_dir ''failed'' (fst det_b),
           snd (path_split path_b), False),
          (fst (path_split path_c), archive_dir data_dir ''failed'' ''unknown'',
           snd (path_split path_c), False)#}"
  proof
    assume h: "mset files = {#?fa, ?fb, ?fc#} \<and>
      file_rows load_csv path_a det_a = [Some a1, Some a2, Some a3] \<and>
      length ?rb = 3 \<and> length (valid_rows ?rb) = 2"
    then have m: "mset files = {#?fa, ?fb, ?fc#}" and b2: "length (valid_rows ?rb) = 2"
      by simp_all
    from h have pf: "file_calls load_csv ?fa = map (call_of det_a) [a1, a2, a3]"
      "file_calls load_csv ?fb = map (call_of det_b) (valid_rows ?rb)"
      "file_calls load_csv ?fc = []"
      "file_archive data_dir load_csv ?fa =
       (fst (path_split path_a), archive_dir data_dir ''successful'' (fst det_a),
        snd (path_split path_a), True)"
      "file_archive data_dir load_csv ?fb =
       (fst (path_split path_b), archive_dir data_dir ''failed'' (fst det_b),
        snd (path_split path_b), False)"
      "file_archive data_dir load_csv ?fc =
       (fst (path_split path_c), archive_dir data_dir ''failed'' ''unknown'',
        snd (path_split path_c), False)"
      using per_file by blast+
    have "length (concat (map (file_calls load_csv) files)) =
        sum_list (map (\<lambda>f. length (file_calls load_csv f)) files)"
      by (simp add: length_concat comp_def)
    also have "\<dots> = sum_mset (image_mset (\<lambda>f. length (file_calls load_csv f)) (mset files))"
      by (simp only: mset_map[symmetric] sum_mset_sum_list)
    also have "\<dots> = 5" unfolding m by (simp add: pf b2)
    finally have n: "length (concat (map (file_calls load_csv) files)) = 5" .
    have "mset (map (file_archive data_dir load_csv) files) =
        image_mset (file_archive data_dir load_csv) (mset files)" by simp
    also have "\<dots> = {#file_archive data_dir load_csv ?fa, file_archive data_dir load_csv ?fb,
        file_archive data_dir load_csv ?fc#}" unfolding m by simp
    finally have a: "mset (map (file_archive data_dir load_csv) files) =
        {#file_archive data_dir load_csv ?fa, file_archive data_dir load_csv ?fb,
        file_archive data_dir load_csv ?fc#}" .
    show "length (concat (map (file_calls load_csv) files)) = 5 \<and>
      mset (map (file_archive data_dir load_csv) files) =
        {#(fst (path_split path_a), archive_dir data_dir ''successful'' (fst det_a),
           snd (path_split path_a), True),
          (fst (path_split path_b), archive_dir data_dir ''failed'' (fst det_b),
           snd (path_split path_b), False),
          (fst (path_split path_c), archive_dir data_dir ''failed'' ''unknown'',
           snd (path_split path_c), False)#}"
      using n a unfolding pf by simp
  qed
  show ?thesis by (rule conjI[OF run conjI[OF ordered any_order]])
qed

theorem scan_upload_archive_files_witness:
  "test_files =
     [(''path/a.csv'', Some (''src_a'', ''sig_a'', ''day'', ''hrr'', 20200419)),
      (''path/b.csv'', Some (''src_b'', ''sig_b'', ''week'', ''msa'', 202016)),
      (''path/c.csv'', None)] \<and>
   file_rows test_load_csv ''path/a.csv'' (''src_a'', ''sig_a'', ''day'', ''hrr'', 20200419) =
     [Some (make_row ''a1'' 1), Some (make_row ''a2'' 2), Some (make_row ''a3'' 3)] \<and>
   length (file_rows test_load_csv ''path/b.csv'' (''src_b'', ''sig_b'', ''week'', ''msa'', 202016)) = 3 \<and>
   length (valid_rows
     (file_rows test_load_csv ''path/b.csv'' (''src_b'', ''sig_b'', ''week'', ''msa'', 202016))) = 2 \<and>
   scan_upload_archive ''data_dir'' test_files test_load_csv record_call [] =
     (None,
      [(''src_a'', ''sig_a'', ''day'', ''hrr'', 20200419, ''a1'', 1, Some 1, Some 1),
       (''src_a'', ''sig_a'', ''day'', ''hrr'', 20200419, ''a2'', 2, Some 2, Some 2),
       (''src_a'', ''sig_a'', ''day'', ''hrr'', 20200419, ''a3'', 3, Some 3, Some 3),
       (''src_b'', ''sig_b'', ''week'', ''msa'', 202016, ''b1'', 1, Some 1, Some 1),
       (''src_b'', ''sig_b'', ''week'', ''msa'', 202016, ''b3'', 3, Some 3, Some 3)],
      [(''path'', ''data_dir/archive/successful/src_a'', ''a.csv'', True),
       (''path'', ''data_dir/archive/failed/src_b'', ''b.csv'', False),
       (''path'', ''data_dir/archive/failed/unknown'', ''c.csv'', False)])"
proof -
  let ?da = "(''src_a'', ''sig_a'', ''day'', ''hrr'', 20200419 :: int)"
  let ?db = "(''src_b'', ''sig_b'', ''week'', ''msa'', 202016 :: int)"
  let ?rb = "file_rows test_load_csv ''path/b.csv'' ?db"
  have h1: "test_files = [(''path/a.csv'', Some ?da), (''path/b.csv'', Some ?db), (''path/c.csv'', None)]"
    by (simp add: test_files_def)
  have h2: "file_rows test_load_csv ''path/a.csv'' ?da =
      [Some (make_row ''a1'' 1), Some (make_row ''a2'' 2), Some (make_row ''a3'' 3)]"
    by (simp add: file_rows_def test_load_csv_def)
  have rb: "?rb = [Some (make_row ''b1'' 1), None, Some (make_row ''b3'' 3)]"
    by (simp add: file_rows_def test_load_csv_def)
  have vb: "valid_rows ?rb = [make_row ''b1'' 1, make_row ''b3'' 3]"
    unfolding rb by (simp add: valid_rows_simps)
  have h3: "length ?rb = 3" unfolding rb by simp
  have h4: "length (valid_rows ?rb) = 2" unfolding vb by simp
  note T = scan_upload_archive_files[where data_dir = "''data_dir''" and files = test_files
      and load_csv = test_load_csv and ups = "\<lambda>call d. d @ [call]" and db = "[]"
      and path_a = "''path/a.csv''" and det_a = ?da and path_b = "''path/b.csv''" and det_b = ?db
      and path_c = "''path/c.csv''" and ?a1.0 = "make_row ''a1'' 1" and ?a2.0 = "make_row ''a2'' 2"
      and ?a3.0 = "make_row ''a3'' 3"]
  from T have run: "scan_upload_archive ''data_dir'' test_files test_load_csv
        (\<lambda>call d. Inr (d @ [call])) [] =
      (None, fold (\<lambda>call d. d @ [call]) (concat (map (file_calls test_load_csv) test_files)) [],
       map (file_archive ''data_dir'' test_load_csv) test_files)"
    by (rule conjunct1)
  from T h1 h2 h3 h4 have calls: "concat (map (file_calls test_load_csv) test_files) =
      map (call_of ?da) [make_row ''a1'' 1, make_row ''a2'' 2, make_row ''a3'' 3] @
      map (call_of ?db) (valid_rows ?rb)"
    and arch: "map (file_archive ''data_dir'' test_load_csv) test_files =
      [(fst (path_split ''path/a.csv''), archive_dir ''data_dir'' ''successful'' (fst ?da),
        snd (path_split ''path/a.csv''), True),
       (fst (path_split ''path/b.csv''), archive_dir ''data_dir'' ''failed'' (fst ?db),
        snd (path_split ''path/b.csv''), False),
       (fst (path_split ''path/c.csv''), archive_dir ''data_dir'' ''failed'' ''unknown'',
        snd (path_split ''path/c.csv''), False)]"
    by blast+
  have e: "scan_upload_archive ''data_dir'' test_files test_load_csv record_call [] =
     (None,
      [(''src_a'', ''sig_a'', ''day'', ''hrr'', 20200419, ''a1'', 1, Some 1, Some 1),
       (''src_a'', ''sig_a'', ''day'', ''hrr'', 20200419, ''a2'', 2, Some 2, Some 2),
       (''src_a'', ''sig_a'', ''day'', ''hrr'', 20200419, ''a3'', 3, Some 3, Some 3),
       (''src_b'', ''sig_b'', ''week'', ''msa'', 202016, ''b1'', 1, Some 1, Some 1),
       (''src_b'', ''sig_b'', ''week'', ''msa'', 202016, ''b3'', 3, Some 3, Some 3)],
      [(''path'', ''data_dir/archive/successful/src_a'', ''a.csv'', True),
       (''path'', ''data_dir/archive/failed/src_b'', ''b.csv'', False),
       (''path'', ''data_dir/archive/failed/unknown'', ''c.csv'', False)])"
    unfolding record_call_total run calls arch fold_record vb
    by (simp add: call_of_def make_row_def split_a split_b split_c archive_dir_def join_dirs)
  show ?thesis by (rule conjI[OF h1 conjI[OF h2 conjI[OF h3 conjI[OF h4 e]]]])
qed

end
